theory Spec2Isabelle
  imports Main "HOL-Library.AList" "HOL-Library.Char_ord" "HOL-Library.List_Lexorder"
begin

section \<open>Data model\<close>

text \<open>
  The branch-classification core of gh-poi (\<^verbatim>\<open>poi.go\<close>, the version that threads a
  \<^verbatim>\<open>context.Context\<close> and works on \<^verbatim>\<open>shared.Branch\<close>). Go strings are byte
  sequences; \<^typ>\<open>string\<close> is a list of bytes as well, so \<^const>\<open>length\<close> is Go's
  \<^verbatim>\<open>len\<close> and equality of strings is equality of lists.
\<close>

datatype BranchState = Unknown | NotDeletable | Deletable | Deleted

datatype PullRequestState = Closed | Merged | Open

text \<open>
  Modelled from the spec: the declaration of \<^verbatim>\<open>shared.PullRequest\<close> is not among the
  sources; the fields are those of section 3 of the specification and of the composite
  literal in \<^verbatim>\<open>toPullRequests\<close>. The fields carry the prefix \<open>PR_\<close> because a
  branch has fields of the same names.
\<close>

record PullRequest =
  PR_Name :: string
  PR_State :: PullRequestState
  PR_IsDraft :: bool
  PR_Number :: int
  PR_Commits :: "string list"
  PR_Url :: string
  PR_Author :: string

text \<open>
  Modelled from the spec: the declaration of \<^verbatim>\<open>shared.Branch\<close> is not among the
  sources; the fields are those of section 3 of the specification, each of them read or
  written by \<^verbatim>\<open>poi.go\<close>.
\<close>

record Branch =
  Head :: bool
  Name :: string
  IsMerged :: bool
  IsProtected :: bool
  RemoteHeadOid :: string
  Commits :: "string list"
  PullRequests :: "PullRequest list"
  State :: BranchState

record UncommittedChange =
  X :: string
  Y :: string
  Path :: string

text \<open>The zero value \<^verbatim>\<open>shared.Branch{}\<close>.\<close>

definition zeroBranch :: Branch where
  "zeroBranch =
     \<lparr>Head = False, Name = [], IsMerged = False, IsProtected = False, RemoteHeadOid = [],
      Commits = [], PullRequests = [], State = Unknown\<rparr>"

section \<open>The connection and the calls made through it\<close>

text \<open>
  A Go \<^verbatim>\<open>error\<close> value. The connection may fail with any of them; \<open>ErrNotFound\<close> is
  the package's own sentinel, the other three stand for the errors built by
  \<^verbatim>\<open>fmt.Errorf\<close> and for those of the external commands.
\<close>

datatype error =
    ErrNotFound
  | ErrCommand string
  | ErrUnmarshal string
  | ErrUnexpectedState string

text \<open>
  How a function of the package can fail: it returns an error to its caller, or the Go
  runtime panics (an index out of range).
\<close>

datatype failure = Returned error | Panicked

text \<open>One constructor for each method of the interface \<^verbatim>\<open>Connection\<close>, with its arguments.\<close>

datatype call =
    Conn_CheckRepos string "string list"
  | Conn_GetRemoteNames
  | Conn_GetSshConfig string
  | Conn_GetRepoNames string string
  | Conn_GetBranchNames
  | Conn_GetMergedBranchNames string string
  | Conn_GetRemoteHeadOid string string
  | Conn_GetLsRemoteHeadOid string string
  | Conn_GetLog string
  | Conn_GetAssociatedRefNames string
  | Conn_GetPullRequests string string string string
  | Conn_GetUncommittedChanges
  | Conn_GetConfig string
  | Conn_AddConfig string string
  | Conn_RemoveConfig string
  | Conn_CheckoutBranch string
  | Conn_DeleteBranches "string list"

text \<open>
  The connection is the outside world (git and the forge). What a call returns may depend
  on every call made before it, so a connection is a function of the calls made so far
  and of the call; it returns Go's pair \<^verbatim>\<open>(string, error)\<close>, the error \<open>None\<close> for
  \<^verbatim>\<open>nil\<close> (\<^verbatim>\<open>CheckRepos\<close> returns the error alone: its string is never read).
  A program takes the list of the calls made so far and returns its result with the
  list extended by the calls it made, in order.
\<close>

type_synonym Connection = "call list \<Rightarrow> call \<Rightarrow> string \<times> error option"

type_synonym 'a prog = "call list \<Rightarrow> (failure + 'a) \<times> call list"

definition retP :: "'a \<Rightarrow> 'a prog" where
  "retP x h = (Inr x, h)"

definition failP :: "failure \<Rightarrow> 'a prog" where
  "failP f h = (Inl f, h)"

definition bindP :: "'a prog \<Rightarrow> ('a \<Rightarrow> 'b prog) \<Rightarrow> 'b prog" where
  "bindP m f h = (case m h of (Inl e, h') \<Rightarrow> (Inl e, h') | (Inr x, h') \<Rightarrow> f x h')"

text \<open>A call whose two results the caller reads itself.\<close>

definition invoke :: "Connection \<Rightarrow> call \<Rightarrow> (string \<times> error option) prog" where
  "invoke conn c h = (Inr (conn h c), h @ [c])"

text \<open>A call followed by \<^verbatim>\<open>if err != nil { return nil, err }\<close>.\<close>

definition checked :: "Connection \<Rightarrow> call \<Rightarrow> string prog" where
  "checked conn c h =
     (case conn h c of
        (out, Some err) \<Rightarrow> (Inl (Returned err), h @ [c])
      | (out, None) \<Rightarrow> (Inr out, h @ [c]))"

text \<open>A pure function that may panic, run inside a program.\<close>

definition liftP :: "failure + 'a \<Rightarrow> 'a prog" where
  "liftP r h = (r, h)"

section \<open>Text utilities\<close>

text \<open>\<^verbatim>\<open>strings.HasPrefix\<close>.\<close>

definition hasPrefix :: "string \<Rightarrow> string \<Rightarrow> bool" where
  "hasPrefix s p = (take (length p) s = p)"

text \<open>\<^verbatim>\<open>strings.Replace(text, "\r\n", "\n", -1)\<close>: every CR LF, left to right.\<close>

fun replaceCRLF :: "string \<Rightarrow> string" where
  "replaceCRLF (c # d # cs) =
     (if c = CHR 0x0D \<and> d = CHR 0x0A then CHR 0x0A # replaceCRLF cs
      else c # replaceCRLF (d # cs))"
| "replaceCRLF cs = cs"

text \<open>
  \<^verbatim>\<open>strings.FieldsFunc\<close>: the maximal runs of characters that do not satisfy \<open>f\<close>; no
  empty field. \<open>cur\<close> is the field being read.
\<close>

fun fieldsFrom :: "(char \<Rightarrow> bool) \<Rightarrow> string \<Rightarrow> string \<Rightarrow> string list" where
  "fieldsFrom f cur [] = (if cur = [] then [] else [cur])"
| "fieldsFrom f cur (c # cs) =
     (if f c then (if cur = [] then fieldsFrom f [] cs else cur # fieldsFrom f [] cs)
      else fieldsFrom f (cur @ [c]) cs)"

definition splitLines :: "string \<Rightarrow> string list" where
  "splitLines text = fieldsFrom (\<lambda>c. c = CHR 0x0A) [] (replaceCRLF text)"

text \<open>
  \<^verbatim>\<open>strings.Split\<close> at a separator of one character: always at least one piece. \<open>cur\<close>
  is the piece being read.
\<close>

fun splitFrom :: "char \<Rightarrow> string \<Rightarrow> string \<Rightarrow> string list" where
  "splitFrom sep cur [] = [cur]"
| "splitFrom sep cur (c # cs) =
     (if c = sep then cur # splitFrom sep [] cs else splitFrom sep (cur @ [c]) cs)"

section \<open>Ancestry trimmer\<close>

text \<open>
  The lazy \<^verbatim>\<open>.+?/\<close> of the regular expression in \<^verbatim>\<open>extractBranchNames\<close>, read
  after the first character of the remote's name: the text after the first \<open>/\<close>, if one
  comes before the end and before a line feed (which \<^verbatim>\<open>.\<close> does not match).
\<close>

fun afterSlash :: "string \<Rightarrow> string option" where
  "afterSlash [] = None"
| "afterSlash (c # cs) =
     (if c = CHR ''/'' then Some cs else if c = CHR 0x0A then None else afterSlash cs)"

text \<open>
  \<^verbatim>\<open>ReplaceAllString(name, "")\<close> for \<^verbatim>\<open>^refs/(?:heads|remotes/.+?)/\<close>: the
  expression is anchored at the start, so it matches at most once.
\<close>

definition stripRefPrefix :: "string \<Rightarrow> string" where
  "stripRefPrefix name =
     (if hasPrefix name ''refs/heads/'' then drop 11 name
      else if hasPrefix name ''refs/remotes/'' then
        (case drop 13 name of
           [] \<Rightarrow> name
         | c # cs \<Rightarrow>
             if c = CHR 0x0A then name
             else (case afterSlash cs of None \<Rightarrow> name | Some rest \<Rightarrow> rest))
      else name)"

fun extractBranchNames :: "string list \<Rightarrow> string list" where
  "extractBranchNames [] = []"
| "extractBranchNames (name # refNames) = stripRefPrefix name # extractBranchNames refNames"

text \<open>
  The loop of \<^verbatim>\<open>trimBranch\<close> that runs at \<^verbatim>\<open>i == 0\<close>: \<open>None\<close> is its
  \<^verbatim>\<open>return []string{}, nil\<close>, \<open>Some\<close> the child names after the loop.
\<close>

fun registerChildNames ::
  "string list \<Rightarrow> string \<Rightarrow> string \<Rightarrow> string list \<Rightarrow> string list option" where
  "registerChildNames [] branchName defaultBranchName childNames = Some childNames"
| "registerChildNames (name # names) branchName defaultBranchName childNames =
     (if name = defaultBranchName then None
      else if name \<noteq> branchName
        then registerChildNames names branchName defaultBranchName (childNames @ [name])
      else registerChildNames names branchName defaultBranchName childNames)"

text \<open>The closure \<^verbatim>\<open>isChild\<close>.\<close>

fun isChild :: "string list \<Rightarrow> string \<Rightarrow> bool" where
  "isChild [] name = False"
| "isChild (childName # childNames) name =
     (if name = childName then True else isChild childNames name)"

text \<open>
  The last loop of the body of \<^verbatim>\<open>trimBranch\<close>: \<open>True\<close> is its
  \<^verbatim>\<open>return results, nil\<close>.
\<close>

fun hasUnrelatedName :: "string list \<Rightarrow> string \<Rightarrow> string list \<Rightarrow> bool" where
  "hasUnrelatedName [] branchName childNames = False"
| "hasUnrelatedName (name # names) branchName childNames =
     (if name \<noteq> branchName \<and> \<not> isChild childNames name then True
      else hasUnrelatedName names branchName childNames)"

text \<open>
  The loop \<^verbatim>\<open>for i, oid := range oids\<close> of \<^verbatim>\<open>trimBranch\<close>, from index \<open>i\<close>
  on, with the variables \<open>results\<close> and \<open>childNames\<close>.
\<close>

fun trimBranch_loop ::
  "Connection \<Rightarrow> string \<Rightarrow> bool \<Rightarrow> string \<Rightarrow> string \<Rightarrow> nat \<Rightarrow> string list \<Rightarrow>
     string list \<Rightarrow> string list \<Rightarrow> (string list) prog" where
  "trimBranch_loop conn remoteHeadOid isMerged branchName defaultBranchName i []
       results childNames = retP results"
| "trimBranch_loop conn remoteHeadOid isMerged branchName defaultBranchName i (oid # oids)
       results childNames =
     (if length remoteHeadOid > 0 \<or> isMerged then retP (results @ [oid])
      else bindP (checked conn (Conn_GetAssociatedRefNames oid)) (\<lambda>refNames.
        let names = extractBranchNames (splitLines refNames) in
        (case (if i = 0
               then registerChildNames names branchName defaultBranchName childNames
               else Some childNames) of
           None \<Rightarrow> retP []
         | Some childNames' \<Rightarrow>
             if hasUnrelatedName names branchName childNames' then retP results
             else trimBranch_loop conn remoteHeadOid isMerged branchName defaultBranchName
                    (i + 1) oids (results @ [oid]) childNames')))"

definition trimBranch ::
  "Connection \<Rightarrow> string list \<Rightarrow> string \<Rightarrow> bool \<Rightarrow> string \<Rightarrow> string \<Rightarrow> (string list) prog" where
  "trimBranch conn oids remoteHeadOid isMerged branchName defaultBranchName =
     trimBranch_loop conn remoteHeadOid isMerged branchName defaultBranchName 0 oids [] []"

section \<open>Pull request matcher\<close>

text \<open>\<^verbatim>\<open>\d\<close> of Go's regular expressions: an ASCII digit.\<close>

definition isDigit :: "char \<Rightarrow> bool" where
  "isDigit c = (CHR ''0'' \<le> c \<and> c \<le> CHR ''9'')"

text \<open>The value of a string of digits, read from the left with the value so far.\<close>

fun decimalFrom :: "int \<Rightarrow> string \<Rightarrow> int" where
  "decimalFrom n [] = n"
| "decimalFrom n (c # cs) = decimalFrom (10 * n + (of_char c - 48)) cs"

text \<open>
  \<^verbatim>\<open>getPRNumber\<close>: the expression \<^verbatim>\<open>^refs/pull/(\d+)\<close> captures the longest run of
  digits after the prefix, and \<^verbatim>\<open>strconv.Atoi\<close> fails on a value beyond the largest
  \<^verbatim>\<open>int\<close> (of 64 bits), which gives 0.
\<close>

definition getPRNumber :: "string \<Rightarrow> int" where
  "getPRNumber mergeConfig =
     (if hasPrefix mergeConfig ''refs/pull/'' then
        (let digits = takeWhile isDigit (drop 10 mergeConfig) in
         if digits = [] then 0
         else if decimalFrom 0 digits > 2 ^ 63 - 1 then 0
         else decimalFrom 0 digits)
      else 0)"

text \<open>
  The map \<^verbatim>\<open>prNumbers\<close> is an association list with one pair for each key:
  \<^verbatim>\<open>prNumbers[name] = n\<close> is \<^const>\<open>AList.update\<close>, and reading a key that is absent
  gives Go's zero value.
\<close>

definition lookupNumber :: "(string \<times> int) list \<Rightarrow> string \<Rightarrow> int" where
  "lookupNumber prNumbers name = (case map_of prNumbers name of None \<Rightarrow> 0 | Some n \<Rightarrow> n)"

text \<open>The closure \<^verbatim>\<open>prExists\<close>, over the variable \<open>results\<close>.\<close>

fun prExists :: "PullRequest list \<Rightarrow> PullRequest \<Rightarrow> bool" where
  "prExists [] pr = False"
| "prExists (result # results) pr =
     (if PR_Number pr = PR_Number result then True else prExists results pr)"

text \<open>The closure \<^verbatim>\<open>prNumberExists\<close>, over the values of the map.\<close>

fun prNumberExists :: "(string \<times> int) list \<Rightarrow> int \<Rightarrow> bool" where
  "prNumberExists [] prNumber = False"
| "prNumberExists ((name, n) # prNumbers) prNumber =
     (if n = prNumber then True else prNumberExists prNumbers prNumber)"

text \<open>The loop of \<^verbatim>\<open>findMatchedPullRequest\<close>, with the variable \<open>results\<close>.\<close>

fun findMatchedPullRequest_loop ::
  "string \<Rightarrow> PullRequest list \<Rightarrow> (string \<times> int) list \<Rightarrow> PullRequest list \<Rightarrow> PullRequest list"
  where
  "findMatchedPullRequest_loop branchName [] prNumbers results = results"
| "findMatchedPullRequest_loop branchName (pr # prs) prNumbers results =
     (if prExists results pr
        then findMatchedPullRequest_loop branchName prs prNumbers results
      else if prNumberExists prNumbers (PR_Number pr) then
        (if PR_Number pr = lookupNumber prNumbers branchName
           then findMatchedPullRequest_loop branchName prs prNumbers (results @ [pr])
         else findMatchedPullRequest_loop branchName prs prNumbers results)
      else if PR_Name pr = branchName
        then findMatchedPullRequest_loop branchName prs prNumbers (results @ [pr])
      else findMatchedPullRequest_loop branchName prs prNumbers results)"

definition findMatchedPullRequest ::
  "string \<Rightarrow> PullRequest list \<Rightarrow> (string \<times> int) list \<Rightarrow> PullRequest list" where
  "findMatchedPullRequest branchName prs prNumbers =
     findMatchedPullRequest_loop branchName prs prNumbers []"

text \<open>
  The first loop of \<^verbatim>\<open>applyPullRequest\<close>. The error of \<^verbatim>\<open>GetConfig\<close> is dropped
  and its output read all the same. The method \<^verbatim>\<open>IsDetached\<close> of \<^verbatim>\<open>shared.Branch\<close>
  is not among the sources: it is the parameter \<open>isDetached\<close>.
\<close>

fun collectPRNumbers ::
  "(Branch \<Rightarrow> bool) \<Rightarrow> Connection \<Rightarrow> Branch list \<Rightarrow> (string \<times> int) list \<Rightarrow>
     ((string \<times> int) list) prog" where
  "collectPRNumbers isDetached conn [] prNumbers = retP prNumbers"
| "collectPRNumbers isDetached conn (branch # branches) prNumbers =
     (if isDetached branch then collectPRNumbers isDetached conn branches prNumbers
      else bindP (invoke conn (Conn_GetConfig (''branch.'' @ Name branch @ ''.merge'')))
        (\<lambda>(mergeConfig, err).
          if getPRNumber mergeConfig > 0
            then collectPRNumbers isDetached conn branches
                   (AList.update (Name branch) (getPRNumber mergeConfig) prNumbers)
          else collectPRNumbers isDetached conn branches prNumbers))"

text \<open>
  The second loop of \<^verbatim>\<open>applyPullRequest\<close>. \<^verbatim>\<open>sort.Slice\<close> orders by the number; the
  numbers of the pull requests matched to one branch are distinct, so the order of the
  result does not depend on the sorting algorithm.
\<close>

fun attachPullRequests ::
  "Branch list \<Rightarrow> PullRequest list \<Rightarrow> (string \<times> int) list \<Rightarrow> Branch list" where
  "attachPullRequests [] prs prNumbers = []"
| "attachPullRequests (branch # branches) prs prNumbers =
     branch\<lparr>PullRequests :=
        sort_key PR_Number (findMatchedPullRequest (Name branch) prs prNumbers)\<rparr>
       # attachPullRequests branches prs prNumbers"

definition applyPullRequest ::
  "(Branch \<Rightarrow> bool) \<Rightarrow> Connection \<Rightarrow> Branch list \<Rightarrow> PullRequest list \<Rightarrow> (Branch list) prog"
  where
  "applyPullRequest isDetached conn branches prs =
     bindP (collectPRNumbers isDetached conn branches [])
       (\<lambda>prNumbers. retP (attachPullRequests branches prs prNumbers))"

text \<open>
  What the loop of \<^verbatim>\<open>findMatchedPullRequest\<close> asks of a pull request before it
  appends it: a number that is a value of the map must be the number mapped to the branch,
  and any other pull request must carry the name of the branch.
\<close>

definition matchesBranch :: "(string \<times> int) list \<Rightarrow> string \<Rightarrow> PullRequest \<Rightarrow> bool" where
  "matchesBranch prNumbers branchName pr =
     (if PR_Number pr \<in> snd ` set prNumbers
      then PR_Number pr = lookupNumber prNumbers branchName
      else PR_Name pr = branchName)"

section \<open>Classification engine\<close>

definition IsUntracked :: "UncommittedChange \<Rightarrow> bool" where
  "IsUntracked uc = (Y uc = ''?'')"

text \<open>The loop of \<^verbatim>\<open>isFullyMerged\<close> over the commits of the pull request.\<close>

fun oidExists :: "string \<Rightarrow> string list \<Rightarrow> bool" where
  "oidExists localHeadOid [] = False"
| "oidExists localHeadOid (oid # oids) =
     (if oid = localHeadOid then True else oidExists localHeadOid oids)"

definition isFullyMerged :: "Branch \<Rightarrow> PullRequest \<Rightarrow> bool" where
  "isFullyMerged branch pr =
     (if PR_State pr \<noteq> Merged \<or> length (Commits branch) = 0 then False
      else oidExists (Commits branch ! 0) (PR_Commits pr))"

text \<open>The first loop of \<^verbatim>\<open>getDeleteStatus\<close>, with its \<^verbatim>\<open>break\<close>.\<close>

fun hasTrackedChanges :: "UncommittedChange list \<Rightarrow> bool" where
  "hasTrackedChanges [] = False"
| "hasTrackedChanges (change # changes) =
     (if \<not> IsUntracked change then True else hasTrackedChanges changes)"

text \<open>
  The second loop of \<^verbatim>\<open>getDeleteStatus\<close>: \<open>None\<close> is the early return of
  \<^verbatim>\<open>NotDeletable\<close> at an open pull request, \<open>Some n\<close> the counter after the loop.
\<close>

fun countFullyMerged :: "Branch \<Rightarrow> PullRequest list \<Rightarrow> nat \<Rightarrow> nat option" where
  "countFullyMerged branch [] fullyMergedCnt = Some fullyMergedCnt"
| "countFullyMerged branch (pr # prs) fullyMergedCnt =
     (if PR_State pr = Open then None
      else if isFullyMerged branch pr then countFullyMerged branch prs (fullyMergedCnt + 1)
      else countFullyMerged branch prs fullyMergedCnt)"

definition getDeleteStatus :: "Branch \<Rightarrow> UncommittedChange list \<Rightarrow> BranchState" where
  "getDeleteStatus branch uncommittedChanges =
     (if IsProtected branch then NotDeletable
      else if Head branch \<and> hasTrackedChanges uncommittedChanges then NotDeletable
      else if length (PullRequests branch) = 0 then NotDeletable
      else (case countFullyMerged branch (PullRequests branch) 0 of
              None \<Rightarrow> NotDeletable
            | Some fullyMergedCnt \<Rightarrow>
                if fullyMergedCnt = 0 then NotDeletable else Deletable))"

fun checkDeletion :: "Branch list \<Rightarrow> UncommittedChange list \<Rightarrow> Branch list" where
  "checkDeletion [] uncommittedChanges = []"
| "checkDeletion (branch # branches) uncommittedChanges =
     branch\<lparr>State := getDeleteStatus branch uncommittedChanges\<rparr>
       # checkDeletion branches uncommittedChanges"

section \<open>Fail-safe switch\<close>

fun branchNameExists :: "string \<Rightarrow> Branch list \<Rightarrow> bool" where
  "branchNameExists branchName [] = False"
| "branchNameExists branchName (branch # branches) =
     (if Name branch = branchName then True else branchNameExists branchName branches)"

text \<open>The first loop of \<^verbatim>\<open>switchToDefaultBranchIfDeleted\<close>, with its \<^verbatim>\<open>break\<close>.\<close>

fun needsCheckout :: "Branch list \<Rightarrow> bool" where
  "needsCheckout [] = False"
| "needsCheckout (branch # branches) =
     (if Head branch \<and> State branch = Deletable then True else needsCheckout branches)"

text \<open>The last loop of \<^verbatim>\<open>switchToDefaultBranchIfDeleted\<close>.\<close>

fun relabelHead :: "Branch list \<Rightarrow> string \<Rightarrow> Branch list" where
  "relabelHead [] defaultBranchName = []"
| "relabelHead (branch # branches) defaultBranchName =
     (if Name branch = defaultBranchName then branch\<lparr>Head := True\<rparr>
      else branch\<lparr>Head := False\<rparr>) # relabelHead branches defaultBranchName"

definition switchToDefaultBranchIfDeleted ::
  "Connection \<Rightarrow> Branch list \<Rightarrow> string \<Rightarrow> bool \<Rightarrow> (Branch list) prog" where
  "switchToDefaultBranchIfDeleted conn branches defaultBranchName dryRun =
     (if \<not> needsCheckout branches then retP branches
      else bindP (if \<not> dryRun then checked conn (Conn_CheckoutBranch defaultBranchName)
                  else retP [])
        (\<lambda>_. retP
          ((if \<not> branchNameExists defaultBranchName branches
            then [zeroBranch\<lparr>Head := True, Name := defaultBranchName, State := NotDeletable\<rparr>]
            else [])
           @ relabelHead branches defaultBranchName)))"

section \<open>Deletion executor\<close>

text \<open>
  \<^verbatim>\<open>toBranch\<close>: \<^verbatim>\<open>splitNames[1]\<close> panics on a line without a colon.
\<close>

fun toBranch :: "string list \<Rightarrow> failure + Branch list" where
  "toBranch [] = Inr []"
| "toBranch (branchName # branchNames) =
     (case splitFrom CHR '':'' [] branchName of
        s0 # s1 # _ \<Rightarrow>
          (case toBranch branchNames of
             Inl f \<Rightarrow> Inl f
           | Inr results \<Rightarrow> Inr (zeroBranch\<lparr>Head := (s0 = ''*''), Name := s1\<rparr> # results))
      | _ \<Rightarrow> Inl Panicked)"

fun getBranchNames :: "Branch list \<Rightarrow> BranchState \<Rightarrow> string list" where
  "getBranchNames [] state = []"
| "getBranchNames (branch # branches) state =
     (if State branch = state then Name branch # getBranchNames branches state
      else getBranchNames branches state)"

fun checkDeleted :: "Branch list \<Rightarrow> Branch list \<Rightarrow> Branch list" where
  "checkDeleted [] branchesAfter = []"
| "checkDeleted (branch # branchesBefore) branchesAfter =
     (if State branch = Deletable
      then (if \<not> branchNameExists (Name branch) branchesAfter
            then branch\<lparr>State := Deleted\<rparr> else branch)
      else branch) # checkDeleted branchesBefore branchesAfter"

text \<open>
  \<^verbatim>\<open>DeleteBranches\<close>: the two results of \<^verbatim>\<open>connection.DeleteBranches\<close> are not
  assigned.
\<close>

definition DeleteBranches :: "Connection \<Rightarrow> Branch list \<Rightarrow> (Branch list) prog" where
  "DeleteBranches conn branches =
     (if length (getBranchNames branches Deletable) = 0 then retP branches
      else bindP (invoke conn (Conn_DeleteBranches (getBranchNames branches Deletable))) (\<lambda>_.
           bindP (checked conn Conn_GetBranchNames) (\<lambda>branchNamesAfter.
           bindP (liftP (toBranch (splitLines branchNamesAfter))) (\<lambda>branchesAfter.
           retP (checkDeleted branches branchesAfter)))))"

section \<open>Query batching\<close>

text \<open>
  The variable \<open>hash\<close> of \<^verbatim>\<open>getQueryHashes\<close> for the branch at index \<open>i\<close> of \<open>n\<close>
  branches, one that the loop does not skip: the commit read is the last of the list.
\<close>

definition queryHash :: "nat \<Rightarrow> nat \<Rightarrow> Branch \<Rightarrow> string" where
  "queryHash n i branch =
     ''hash:''
     @ (if RemoteHeadOid branch = [] then Commits branch ! (length (Commits branch) - 1)
        else RemoteHeadOid branch)
     @ (if int i = int n - 1 then [] else '' '')"

text \<open>
  The loop of \<^verbatim>\<open>getQueryHashes\<close> from index \<open>i\<close> on, with the variables \<open>results\<close>
  and \<open>hashes\<close>, and the statement after it.
\<close>

fun getQueryHashes_loop ::
  "nat \<Rightarrow> nat \<Rightarrow> Branch list \<Rightarrow> string list \<Rightarrow> string \<Rightarrow> string list" where
  "getQueryHashes_loop n i [] results hashes =
     (if length hashes > 0 then results @ [hashes] else results)"
| "getQueryHashes_loop n i (branch # branches) results hashes =
     (if RemoteHeadOid branch = [] \<and> length (Commits branch) = 0
        then getQueryHashes_loop n (i + 1) branches results hashes
      else if length hashes + length (queryHash n i branch) > 256
        then getQueryHashes_loop n (i + 1) branches (results @ [hashes]) (queryHash n i branch)
      else getQueryHashes_loop n (i + 1) branches results (hashes @ queryHash n i branch))"

definition getQueryHashes :: "Branch list \<Rightarrow> string list" where
  "getQueryHashes branches = getQueryHashes_loop (length branches) 0 branches [] []"

section \<open>Loading and classifying the branches\<close>

text \<open>The struct \<^verbatim>\<open>Remote\<close>; the prefix keeps its fields apart from those of a branch.\<close>

record Remote =
  Remote_Name :: string
  Remote_Hostname :: string
  Remote_RepoName :: string

text \<open>The fields of the struct \<^verbatim>\<open>response\<close> of \<^verbatim>\<open>getRepo\<close> that the function reads.\<close>

record RepoResponse =
  DefaultBranchRef_Name :: string
  Repo_Name :: string
  Owner_Login :: string
  Parent_Name :: string
  Parent_Owner_Login :: string

text \<open>A node of the struct \<^verbatim>\<open>response\<close> of \<^verbatim>\<open>toPullRequests\<close>, its commits as oids.\<close>

record PullRequestNode =
  Node_Number :: int
  Node_HeadRefName :: string
  Node_Url :: string
  Node_State :: string
  Node_IsDraft :: bool
  Node_Commits :: "string list"
  Node_Author_Login :: string

text \<open>
  What \<^verbatim>\<open>poi.go\<close> calls and the sources do not hold: \<^verbatim>\<open>json.Unmarshal\<close> into the
  two response structs (\<open>Inl\<close> carries the text of its error), the functions
  \<^verbatim>\<open>strings.Fields\<close> and \<^verbatim>\<open>strings.TrimSpace\<close>, which read Unicode white space, and
  the method \<^verbatim>\<open>IsDetached\<close> of \<^verbatim>\<open>shared.Branch\<close>. They are parameters: every
  theorem holds whatever they compute.
\<close>

record Externals =
  unmarshalRepo :: "string \<Rightarrow> string + RepoResponse"
  unmarshalPullRequests :: "string \<Rightarrow> string + PullRequestNode list"
  stringsFields :: "string \<Rightarrow> string list"
  stringsTrimSpace :: "string \<Rightarrow> string"
  IsDetached :: "Branch \<Rightarrow> bool"

definition getRepo :: "Externals \<Rightarrow> string \<Rightarrow> error + (string list \<times> string)" where
  "getRepo ext jsonResp =
     (case unmarshalRepo ext jsonResp of
        Inl msg \<Rightarrow> Inl (ErrUnmarshal (''error unmarshaling response: '' @ msg))
      | Inr resp \<Rightarrow>
          Inr ((Owner_Login resp @ ''/'' @ Repo_Name resp)
                 # (if length (Parent_Name resp) > 0
                    then [Parent_Owner_Login resp @ ''/'' @ Parent_Name resp] else []),
               DefaultBranchRef_Name resp))"

definition toPullRequestState :: "string \<Rightarrow> PullRequestState \<times> error option" where
  "toPullRequestState state =
     (if state = ''CLOSED'' then (Closed, None)
      else if state = ''MERGED'' then (Merged, None)
      else if state = ''OPEN'' then (Open, None)
      else (Closed, Some ErrNotFound))"

text \<open>The loop of \<^verbatim>\<open>toPullRequests\<close> over the edges, with the variable \<open>results\<close>.\<close>

fun toPullRequests_loop :: "PullRequestNode list \<Rightarrow> PullRequest list \<Rightarrow> error + PullRequest list"
  where
  "toPullRequests_loop [] results = Inr results"
| "toPullRequests_loop (node # nodes) results =
     (case toPullRequestState (Node_State node) of
        (state, err) \<Rightarrow>
          if err = Some ErrNotFound
          then Inl (ErrUnexpectedState (''unexpected pull request state: '' @ Node_State node))
          else toPullRequests_loop nodes
                 (results @
                  [\<lparr>PR_Name = Node_HeadRefName node, PR_State = state,
                    PR_IsDraft = Node_IsDraft node, PR_Number = Node_Number node,
                    PR_Commits = Node_Commits node, PR_Url = Node_Url node,
                    PR_Author = Node_Author_Login node\<rparr>]))"

definition toPullRequests :: "Externals \<Rightarrow> string \<Rightarrow> error + PullRequest list" where
  "toPullRequests ext jsonResp =
     (case unmarshalPullRequests ext jsonResp of
        Inl msg \<Rightarrow> Inl (ErrUnmarshal (''error unmarshaling response: '' @ msg))
      | Inr nodes \<Rightarrow> toPullRequests_loop nodes [])"

text \<open>
  The match of \<^verbatim>\<open>^[ *]+(.+)\<close> in \<^verbatim>\<open>extractMergedBranchNames\<close>: the group is what
  follows the leading blanks and stars up to a line feed; when nothing follows, the
  expression gives the last of at least two marks to the group.
\<close>

definition mergedName :: "string \<Rightarrow> string option" where
  "mergedName name =
     (let marks = takeWhile (\<lambda>c. c = CHR '' '' \<or> c = CHR ''*'') name;
          rest = takeWhile (\<lambda>c. c \<noteq> CHR 0x0A) (drop (length marks) name)
      in if marks = [] then None
         else if rest \<noteq> [] then Some rest
         else if length marks \<ge> 2 then Some [last marks]
         else None)"

fun extractMergedBranchNames :: "string list \<Rightarrow> string list" where
  "extractMergedBranchNames [] = []"
| "extractMergedBranchNames (name # mergedNames) =
     (case mergedName name of
        None \<Rightarrow> extractMergedBranchNames mergedNames
      | Some found \<Rightarrow> found # extractMergedBranchNames mergedNames)"

fun nameExists :: "string \<Rightarrow> string list \<Rightarrow> bool" where
  "nameExists name [] = False"
| "nameExists name (n # names) = (if n = name then True else nameExists name names)"

fun applyMerged :: "Branch list \<Rightarrow> string list \<Rightarrow> Branch list" where
  "applyMerged [] mergedNames = []"
| "applyMerged (branch # branches) mergedNames =
     branch\<lparr>IsMerged := nameExists (Name branch) mergedNames\<rparr> # applyMerged branches mergedNames"

text \<open>\<^verbatim>\<open>applyProtected\<close>: the error of \<^verbatim>\<open>GetConfig\<close> is dropped.\<close>

fun applyProtected :: "Connection \<Rightarrow> Branch list \<Rightarrow> (Branch list) prog" where
  "applyProtected conn [] = retP []"
| "applyProtected conn (branch # branches) =
     bindP (invoke conn (Conn_GetConfig (''branch.'' @ Name branch @ ''.gh-poi-protected'')))
       (\<lambda>(config, err).
     bindP (applyProtected conn branches) (\<lambda>results.
       retP ((case splitLines config of
                [] \<Rightarrow> branch
              | first # _ \<Rightarrow> if first = ''true'' then branch\<lparr>IsProtected := True\<rparr> else branch)
             # results)))"

text \<open>
  The first statement of the body of the loop of \<^verbatim>\<open>applyCommits\<close>, for a branch that
  is neither the default branch nor detached: the remote head oid, from the remote or,
  when that call fails, from \<^verbatim>\<open>ls-remote\<close>. \<^verbatim>\<open>splitLines(remoteHeadOid)[0]\<close> panics
  on an output without a line.
\<close>

definition readRemoteHeadOid :: "Externals \<Rightarrow> Connection \<Rightarrow> Remote \<Rightarrow> Branch \<Rightarrow> Branch prog" where
  "readRemoteHeadOid ext conn remote branch =
     bindP (invoke conn (Conn_GetRemoteHeadOid (Remote_Name remote) (Name branch)))
       (\<lambda>(remoteHeadOid, err).
         case err of
           None \<Rightarrow>
             (case splitLines remoteHeadOid of
                [] \<Rightarrow> failP Panicked
              | first # _ \<Rightarrow> retP (branch\<lparr>RemoteHeadOid := first\<rparr>))
         | Some _ \<Rightarrow>
             bindP (invoke conn (Conn_GetConfig (''branch.'' @ Name branch @ ''.remote'')))
               (\<lambda>(result, _).
                 case splitLines result of
                   [] \<Rightarrow> retP branch
                 | remoteUrl # _ \<Rightarrow>
                     bindP (invoke conn (Conn_GetLsRemoteHeadOid remoteUrl (Name branch)))
                       (\<lambda>(result, err).
                         case err of
                           Some _ \<Rightarrow> retP branch
                         | None \<Rightarrow>
                             (case stringsFields ext result of
                                [] \<Rightarrow> retP branch
                              | first # _ \<Rightarrow> retP (branch\<lparr>RemoteHeadOid := first\<rparr>)))))"

fun applyCommits ::
  "Externals \<Rightarrow> Connection \<Rightarrow> Remote \<Rightarrow> Branch list \<Rightarrow> string \<Rightarrow> (Branch list) prog" where
  "applyCommits ext conn remote [] defaultBranchName = retP []"
| "applyCommits ext conn remote (branch # branches) defaultBranchName =
     (if Name branch = defaultBranchName \<or> IsDetached ext branch then
        bindP (applyCommits ext conn remote branches defaultBranchName) (\<lambda>results.
          retP (branch\<lparr>Commits := []\<rparr> # results))
      else
        bindP (readRemoteHeadOid ext conn remote branch) (\<lambda>branch.
        bindP (checked conn (Conn_GetLog (Name branch))) (\<lambda>oids.
        bindP (trimBranch conn (splitLines oids) (RemoteHeadOid branch) (IsMerged branch)
                 (Name branch) defaultBranchName) (\<lambda>trimmedOids.
        bindP (applyCommits ext conn remote branches defaultBranchName) (\<lambda>results.
          retP (branch\<lparr>Commits := trimmedOids\<rparr> # results))))))"

text \<open>The loops of \<^verbatim>\<open>getQueryOrgs\<close> and \<^verbatim>\<open>getQueryRepos\<close>, with the builder.\<close>

fun getQueryOrgs_loop :: "string list \<Rightarrow> string \<Rightarrow> string" where
  "getQueryOrgs_loop [] repos = repos"
| "getQueryOrgs_loop (name # repoNames) repos =
     getQueryOrgs_loop repoNames
       (repos @ ''org:''
          @ (case splitFrom CHR ''/'' [] name of [] \<Rightarrow> [] | owner # _ \<Rightarrow> owner) @ '' '')"

definition getQueryOrgs :: "Externals \<Rightarrow> string list \<Rightarrow> string" where
  "getQueryOrgs ext repoNames = stringsTrimSpace ext (getQueryOrgs_loop repoNames [])"

fun getQueryRepos_loop :: "string list \<Rightarrow> string \<Rightarrow> string" where
  "getQueryRepos_loop [] repos = repos"
| "getQueryRepos_loop (name # repoNames) repos =
     getQueryRepos_loop repoNames (repos @ ''repo:'' @ name @ '' '')"

definition getQueryRepos :: "Externals \<Rightarrow> string list \<Rightarrow> string" where
  "getQueryRepos ext repoNames = stringsTrimSpace ext (getQueryRepos_loop repoNames [])"

text \<open>The loop of \<^verbatim>\<open>loadBranches\<close> over the query blocks, with the variable \<open>prs\<close>.\<close>

fun fetchPullRequests ::
  "Externals \<Rightarrow> Connection \<Rightarrow> string \<Rightarrow> string \<Rightarrow> string \<Rightarrow> string list \<Rightarrow> PullRequest list \<Rightarrow>
     (PullRequest list) prog" where
  "fetchPullRequests ext conn hostname orgs repos [] prs = retP prs"
| "fetchPullRequests ext conn hostname orgs repos (queryHashes # blocks) prs =
     bindP (checked conn (Conn_GetPullRequests hostname orgs repos queryHashes)) (\<lambda>json.
       case toPullRequests ext json of
         Inl err \<Rightarrow> failP (Returned err)
       | Inr pr \<Rightarrow> fetchPullRequests ext conn hostname orgs repos blocks (prs @ pr))"

definition loadBranches ::
  "Externals \<Rightarrow> Connection \<Rightarrow> Remote \<Rightarrow> string \<Rightarrow> string list \<Rightarrow> (Branch list) prog" where
  "loadBranches ext conn remote defaultBranchName repoNames =
     bindP (checked conn Conn_GetBranchNames) (\<lambda>names.
     bindP (liftP (toBranch (splitLines names))) (\<lambda>branches.
     bindP (checked conn (Conn_GetMergedBranchNames (Remote_Name remote) defaultBranchName))
       (\<lambda>mergedNames.
     bindP (applyProtected conn
              (applyMerged branches (extractMergedBranchNames (splitLines mergedNames))))
       (\<lambda>branches.
     bindP (applyCommits ext conn remote branches defaultBranchName) (\<lambda>branches.
     bindP (fetchPullRequests ext conn (Remote_Hostname remote) (getQueryOrgs ext repoNames)
              (getQueryRepos ext repoNames) (getQueryHashes branches) []) (\<lambda>prs.
     applyPullRequest (IsDetached ext) conn branches prs))))))"

text \<open>
  \<^verbatim>\<open>string(change[0])\<close> converts a byte to the UTF-8 text of the code point of that
  value: one byte below 128, two bytes from 128 on.
\<close>

definition stringOfByte :: "char \<Rightarrow> string" where
  "stringOfByte c =
     (if (of_char c :: nat) < 128 then [c]
      else [char_of (192 + (of_char c :: nat) div 64), char_of (128 + (of_char c :: nat) mod 64)])"

text \<open>
  \<^verbatim>\<open>toUncommittedChange\<close>: a line shorter than three bytes panics at one of
  \<^verbatim>\<open>change[0]\<close>, \<^verbatim>\<open>change[1]\<close> and \<^verbatim>\<open>change[3:]\<close>.
\<close>

fun toUncommittedChange :: "string list \<Rightarrow> failure + UncommittedChange list" where
  "toUncommittedChange [] = Inr []"
| "toUncommittedChange (change # changes) =
     (if length change < 3 then Inl Panicked
      else (case toUncommittedChange changes of
              Inl f \<Rightarrow> Inl f
            | Inr results \<Rightarrow>
                Inr (\<lparr>X = stringOfByte (change ! 0), Y = stringOfByte (change ! 1),
                      Path = drop 3 change\<rparr> # results)))"

text \<open>
  \<^verbatim>\<open>GetBranches\<close>. The last statement sorts by name with \<^verbatim>\<open>sort.Slice\<close>, which
  compares the strings byte by byte; the names of a branch list are unique, so the result
  does not depend on the sorting algorithm.
\<close>

definition GetBranches :: "Externals \<Rightarrow> Connection \<Rightarrow> Remote \<Rightarrow> bool \<Rightarrow> (Branch list) prog" where
  "GetBranches ext conn remote dryRun =
     bindP (checked conn (Conn_GetRepoNames (Remote_Hostname remote) (Remote_RepoName remote)))
       (\<lambda>json.
         case getRepo ext json of
           Inl err \<Rightarrow> failP (Returned err)
         | Inr (repoNames, defaultBranchName) \<Rightarrow>
             bindP (checked conn (Conn_CheckRepos (Remote_Hostname remote) repoNames)) (\<lambda>_.
             bindP (loadBranches ext conn remote defaultBranchName repoNames) (\<lambda>branches.
             bindP (checked conn Conn_GetUncommittedChanges) (\<lambda>changes.
             bindP (liftP (toUncommittedChange (splitLines changes))) (\<lambda>uncommittedChanges.
             bindP (switchToDefaultBranchIfDeleted conn
                      (checkDeletion branches uncommittedChanges) defaultBranchName dryRun)
               (\<lambda>branches.
             retP (sort_key Name branches)))))))"

text \<open>
  In every run of the program \<open>p\<close>, a call of \<^verbatim>\<open>CheckoutBranch\<close> that the connection
  answers with an error makes that error the result of \<open>p\<close>.
\<close>

definition checkoutFailureIsFatal :: "Connection \<Rightarrow> 'a prog \<Rightarrow> bool" where
  "checkoutFailureIsFatal conn p \<longleftrightarrow>
     (\<forall>h. \<exists>calls. snd (p h) = h @ calls
        \<and> (\<forall>k name e. k < length calls \<and> calls ! k = Conn_CheckoutBranch name
              \<and> snd (conn (h @ take k calls) (calls ! k)) = Some e
            \<longrightarrow> fst (p h) = Inl (Returned e)))"

section \<open>The ancestry walk as the specification words it\<close>



section \<open>The batching as the specification words it\<close>

text \<open>
  The filters of a branch list, in order: one for each branch that has a remote head oid
  or a commit, none for the others. \<open>n\<close> is the number of branches of the whole list and
  \<open>i\<close> the index of the first branch of this part of it.
\<close>

fun queryFilters :: "nat \<Rightarrow> nat \<Rightarrow> Branch list \<Rightarrow> string list" where
  "queryFilters n i [] = []"
| "queryFilters n i (branch # branches) =
     (if RemoteHeadOid branch = [] \<and> Commits branch = [] then queryFilters n (i + 1) branches
      else queryHash n i branch # queryFilters n (i + 1) branches)"

text \<open>
  Section 4.2: a new block starts whenever appending the next filter would push the
  length of the current block past 256; the block left at the end is emitted when it is
  not empty.
\<close>

fun packBlocks :: "string \<Rightarrow> string list \<Rightarrow> string list" where
  "packBlocks current [] = (if current = [] then [] else [current])"
| "packBlocks current (added # filters) =
     (if length current + length added > 256 then current # packBlocks added filters
      else packBlocks (current @ added) filters)"

section \<open>Example connections\<close>

text \<open>A connection whose every call returns the empty output and no error.\<close>

definition silentConnection :: Connection where
  "silentConnection h c = ([], None)"

text \<open>
  The repository of scenario D: the tip \<open>a97e96\<close> of \<open>issue1\<close> is on that branch
  alone, its parent \<open>6ebe3d\<close> is on \<open>main\<close> as well.
\<close>

definition scenarioD :: Connection where
  "scenarioD h c =
     (if c = Conn_GetAssociatedRefNames ''a97e96''
        then (''refs/heads/issue1'' @ [CHR 0x0A], None)
      else if c = Conn_GetAssociatedRefNames ''6ebe3d''
        then (''refs/heads/issue1'' @ [CHR 0x0A] @ ''refs/heads/main'' @ [CHR 0x0A], None)
      else ([], Some (ErrCommand ''failed to run external command'')))"

text \<open>No branch is a detached head.\<close>

definition neverDetached :: "Branch \<Rightarrow> bool" where
  "neverDetached branch = False"

text \<open>Branch \<open>a\<close> was checked out from pull request 5; no other branch tracks one.\<close>

definition trackingA :: Connection where
  "trackingA h c =
     (if c = Conn_GetConfig ''branch.a.merge'' then (''refs/pull/5/head'' @ [CHR 0x0A], None)
      else ([], Some (ErrCommand ''failed to run external command'')))"

text \<open>Branches \<open>a\<close> and \<open>b\<close> were both checked out from pull request 5.\<close>

definition trackingBoth :: Connection where
  "trackingBoth h c =
     (if c = Conn_GetConfig ''branch.a.merge'' \<or> c = Conn_GetConfig ''branch.b.merge''
        then (''refs/pull/5/head'' @ [CHR 0x0A], None)
      else ([], Some (ErrCommand ''failed to run external command'')))"

definition examplePR :: "int \<Rightarrow> string \<Rightarrow> PullRequest" where
  "examplePR n name =
     \<lparr>PR_Name = name, PR_State = Merged, PR_IsDraft = False, PR_Number = n,
      PR_Commits = [], PR_Url = [], PR_Author = []\<rparr>"


text \<open>
  git refuses the delete: the call fails and \<open>issue1\<close> is still listed.
\<close>

definition deleteRefused :: Connection where
  "deleteRefused h c =
     (if c = Conn_GetBranchNames
        then ('' :issue1'' @ [CHR 0x0A] @ ''*:main'' @ [CHR 0x0A], None)
      else ([], Some (ErrCommand ''failed to run external command'')))"

text \<open>The same listing, after a delete call that reports no error.\<close>

definition deleteSilent :: Connection where
  "deleteSilent h c =
     (if c = Conn_GetBranchNames
        then ('' :issue1'' @ [CHR 0x0A] @ ''*:main'' @ [CHR 0x0A], None)
      else ([], None))"

text \<open>Every call fails.\<close>

definition failingConnection :: Connection where
  "failingConnection h c = ([], Some (ErrCommand ''failed to run external command''))"

text \<open>
  A run of \<^verbatim>\<open>GetBranches\<close>: the repository \<open>owner/repo\<close> with the default branch
  \<open>main\<close>, and one merged pull request of the branch \<open>issue1\<close>.
\<close>

definition exampleExternals :: Externals where
  "exampleExternals =
     \<lparr>unmarshalRepo = (\<lambda>json. Inr \<lparr>DefaultBranchRef_Name = ''main'', Repo_Name = ''repo'',
          Owner_Login = ''owner'', Parent_Name = [], Parent_Owner_Login = []\<rparr>),
      unmarshalPullRequests = (\<lambda>json. Inr [\<lparr>Node_Number = 1, Node_HeadRefName = ''issue1'',
          Node_Url = [], Node_State = ''MERGED'', Node_IsDraft = False,
          Node_Commits = [''a97e96''], Node_Author_Login = ''owner''\<rparr>]),
      stringsFields = (\<lambda>s. [s]),
      stringsTrimSpace = (\<lambda>s. s),
      IsDetached = (\<lambda>b. False)\<rparr>"

definition exampleRemote :: Remote where
  "exampleRemote =
     \<lparr>Remote_Name = ''origin'', Remote_Hostname = ''github.com'',
      Remote_RepoName = ''owner/repo''\<rparr>"

text \<open>
  The branch \<open>issue1\<close> is checked out and pushed; reading the configuration and checking
  out a branch fail.
\<close>

definition checkoutFails :: Connection where
  "checkoutFails h c =
     (case c of
        Conn_GetBranchNames \<Rightarrow> (''*:issue1'' @ [CHR 0x0A] @ '' :main'' @ [CHR 0x0A], None)
      | Conn_GetRemoteHeadOid remoteName branchName \<Rightarrow> (''a97e96'' @ [CHR 0x0A], None)
      | Conn_GetLog branchName \<Rightarrow> (''a97e96'' @ [CHR 0x0A] @ ''6ebe3d'' @ [CHR 0x0A], None)
      | Conn_GetConfig key \<Rightarrow> ([], Some (ErrCommand ''failed to run external command''))
      | Conn_CheckoutBranch branchName \<Rightarrow>
          ([], Some (ErrCommand ''failed to run external command''))
      | _ \<Rightarrow> ([], None))"

section \<open>Properties of the classification engine\<close>


lemma hasTrackedChanges_ex:
  "hasTrackedChanges changes \<longleftrightarrow> (\<exists>c \<in> set changes. Y c \<noteq> ''?'')"
  by (induction changes) (auto simp: IsUntracked_def)

lemma countFullyMerged_open:
  "(countFullyMerged branch prs n = None) \<longleftrightarrow> (\<exists>pr \<in> set prs. PR_State pr = Open)"
  by (induction prs arbitrary: n) auto

lemma countFullyMerged_count:
  "countFullyMerged branch prs n = Some m \<Longrightarrow>
     m = n + length (filter (isFullyMerged branch) prs)"
proof (induction prs arbitrary: n)
  case Nil
  then show ?case by simp
next
  case (Cons pr prs)
  show ?case
  proof (cases "isFullyMerged branch pr")
    case True
    with Cons.prems have "countFullyMerged branch prs (n + 1) = Some m"
      by (simp split: if_splits)
    from Cons.IH [OF this] True show ?thesis by simp
  next
    case False
    with Cons.prems have "countFullyMerged branch prs n = Some m"
      by (simp split: if_splits)
    from Cons.IH [OF this] False show ?thesis by simp
  qed
qed

text \<open>
  C1. \<^verbatim>\<open>getDeleteStatus\<close> evaluates the priority order: a protected branch is not
  deletable whatever its other fields are; otherwise the checked-out branch with at least
  one uncommitted change whose Y status is not \<open>?\<close> is not deletable (changes that are
  all untracked do not block); otherwise a branch without pull requests is not deletable;
  otherwise any open pull request makes it not deletable; otherwise a branch with no fully
  merged pull request is not deletable; otherwise it is deletable.
\<close>

theorem getDeleteStatus_priority:
  "getDeleteStatus branch uncommittedChanges =
     (if IsProtected branch then NotDeletable
      else if Head branch \<and> (\<exists>c \<in> set uncommittedChanges. Y c \<noteq> ''?'') then NotDeletable
      else if PullRequests branch = [] then NotDeletable
      else if (\<exists>pr \<in> set (PullRequests branch). PR_State pr = Open) then NotDeletable
      else if length (filter (isFullyMerged branch) (PullRequests branch)) = 0
        then NotDeletable
      else Deletable)"
proof -
  have tracked: "hasTrackedChanges uncommittedChanges
      \<longleftrightarrow> (\<exists>c \<in> set uncommittedChanges. Y c \<noteq> ''?'')"
    by (rule hasTrackedChanges_ex)
  show ?thesis
  proof (cases "countFullyMerged branch (PullRequests branch) 0")
    case None
    then have "\<exists>pr \<in> set (PullRequests branch). PR_State pr = Open"
      by (simp add: countFullyMerged_open)
    with None tracked show ?thesis
      by (auto simp: getDeleteStatus_def)
  next
    case (Some m)
    then have no_open: "\<not> (\<exists>pr \<in> set (PullRequests branch). PR_State pr = Open)"
      using countFullyMerged_open [of branch "PullRequests branch" 0] by simp
    from Some have m: "m = length (filter (isFullyMerged branch) (PullRequests branch))"
      by (auto dest: countFullyMerged_count)
    have "getDeleteStatus branch uncommittedChanges =
        (if IsProtected branch then NotDeletable
         else if Head branch \<and> hasTrackedChanges uncommittedChanges then NotDeletable
         else if PullRequests branch = [] then NotDeletable
         else if m = 0 then NotDeletable else Deletable)"
      by (simp add: getDeleteStatus_def Some)
    with no_open tracked m show ?thesis
      by auto
  qed
qed

theorem getDeleteStatus_priority_witness:
  "getDeleteStatus
     \<lparr>Head = True, Name = ''issue1'', IsMerged = False, IsProtected = False,
      RemoteHeadOid = [], Commits = [''a97e96''],
      PullRequests =
        [\<lparr>PR_Name = ''issue1'', PR_State = Merged, PR_IsDraft = False, PR_Number = 1,
          PR_Commits = [''a97e96''], PR_Url = [], PR_Author = ''owner''\<rparr>],
      State = Unknown\<rparr>
     [\<lparr>X = ''?'', Y = ''?'', Path = ''new.txt''\<rparr>] = Deletable
   \<and> getDeleteStatus
     \<lparr>Head = True, Name = ''issue1'', IsMerged = False, IsProtected = False,
      RemoteHeadOid = [], Commits = [''a97e96''],
      PullRequests =
        [\<lparr>PR_Name = ''issue1'', PR_State = Merged, PR_IsDraft = False, PR_Number = 1,
          PR_Commits = [''a97e96''], PR_Url = [], PR_Author = ''owner''\<rparr>],
      State = Unknown\<rparr>
     [\<lparr>X = '' '', Y = ''M'', Path = ''README.md''\<rparr>] = NotDeletable"
  by (simp add: getDeleteStatus_priority isFullyMerged_def)



section \<open>Properties of the ancestry trimmer\<close>




lemma trimBranch_loop_caught_up:
  assumes "length remoteHeadOid > 0 \<or> isMerged"
  shows "trimBranch_loop conn remoteHeadOid isMerged branchName defaultBranchName i oids
           results childNames h = (Inr (results @ take 1 oids), h)"
  using assms by (cases oids) (auto simp: retP_def)


lemma trimBranch_loop_prefix:
  "trimBranch_loop conn remoteHeadOid isMerged branchName defaultBranchName i oids
     results childNames h = (Inr trimmed, h') \<Longrightarrow>
   trimmed = [] \<or> (\<exists>n. trimmed = results @ take n oids)"
proof (induction oids arbitrary: i results childNames h)
  case Nil
  then show ?case by (simp add: retP_def)
next
  case (Cons oid oids)
  show ?case
  proof (cases "length remoteHeadOid > 0 \<or> isMerged")
    case True
    with Cons.prems have "trimmed = results @ take 1 (oid # oids)"
      by (auto simp: retP_def)
    then show ?thesis by blast
  next
    case False
    obtain refNames err where resp:
      "conn h (Conn_GetAssociatedRefNames oid) = (refNames, err)"
      by (cases "conn h (Conn_GetAssociatedRefNames oid)")
    let ?names = "extractBranchNames (splitLines refNames)"
    let ?h = "h @ [Conn_GetAssociatedRefNames oid]"
    from Cons.prems False resp have ok: "err = None"
      by (cases err) (simp_all add: bindP_def checked_def)
    show ?thesis
    proof (cases "if i = 0
        then registerChildNames ?names branchName defaultBranchName childNames
        else Some childNames")
      case None
      with Cons.prems False resp ok have "trimmed = []"
        by (simp add: bindP_def checked_def retP_def Let_def)
      then show ?thesis by simp
    next
      case (Some childNames')
      show ?thesis
      proof (cases "hasUnrelatedName ?names branchName childNames'")
        case True
        with Cons.prems False resp ok Some have "trimmed = results @ take 0 (oid # oids)"
          by (simp add: bindP_def checked_def retP_def Let_def)
        then show ?thesis by blast
      next
        case unrelated: False
        with Cons.prems False resp ok Some
        have "trimBranch_loop conn remoteHeadOid isMerged branchName defaultBranchName
            (i + 1) oids (results @ [oid]) childNames' ?h = (Inr trimmed, h')"
          by (simp add: bindP_def checked_def Let_def)
        from Cons.IH [OF this]
        show ?thesis
        proof
          assume "trimmed = []"
          then show ?thesis by simp
        next
          assume "\<exists>n. trimmed = (results @ [oid]) @ take n oids"
          then obtain n where "trimmed = results @ take (Suc n) (oid # oids)"
            by auto
          then show ?thesis by blast
        qed
      qed
    qed
  qed
qed

text \<open>
  The commits that \<^verbatim>\<open>trimBranch\<close> returns are a prefix of the log, so their first
  entry, the one \<^verbatim>\<open>isFullyMerged\<close> reads, is the first (newest) commit of the log.
\<close>

lemma trimBranch_prefix:
  assumes "trimBranch conn oids remoteHeadOid isMerged branchName defaultBranchName h
      = (Inr trimmed, h')"
  shows "\<exists>n. trimmed = take n oids"
proof -
  from assms have "trimmed = [] \<or> (\<exists>n. trimmed = [] @ take n oids)"
    unfolding trimBranch_def by (rule trimBranch_loop_prefix)
  then show ?thesis
  proof
    assume "trimmed = []"
    then have "trimmed = take 0 oids" by simp
    then show ?thesis by blast
  next
    assume "\<exists>n. trimmed = [] @ take n oids"
    then show ?thesis by simp
  qed
qed

text \<open>
  C3, as the code has it. For a branch whose remote head oid is known or whose merged flag
  is set, \<^verbatim>\<open>trimBranch\<close> makes no call through the connection; for a log that is not
  empty it returns the list of one element, the first (newest) commit of the log, and for
  the empty log it returns the empty list.
\<close>

theorem trimBranch_caught_up:
  assumes "length remoteHeadOid > 0 \<or> isMerged"
  shows "(oids \<noteq> [] \<longrightarrow>
            trimBranch conn oids remoteHeadOid isMerged branchName defaultBranchName h
              = (Inr [hd oids], h))
       \<and> (oids = [] \<longrightarrow>
            trimBranch conn oids remoteHeadOid isMerged branchName defaultBranchName h
              = (Inr [], h))"
  using assms
  by (cases oids) (simp_all add: trimBranch_def retP_def)

theorem trimBranch_caught_up_witness:
  "trimBranch scenarioD [''a97e96'', ''6ebe3d''] ''a97e96'' False ''issue1'' ''main'' []
     = (Inr [''a97e96''], [])
   \<and> trimBranch scenarioD [] [] True ''issue1'' ''main'' [] = (Inr [], [])"
  using trimBranch_caught_up
      [of "''a97e96''" False "[''a97e96'', ''6ebe3d'']" scenarioD "''issue1''" "''main''" "[]"]
    trimBranch_caught_up [of "[]" True "[]" scenarioD "''issue1''" "''main''" "[]"]
  by simp

text \<open>
  The claim C3 as it is worded fails on the empty log: the remote head oid is known and
  the merged flag is set, and the list returned has no element.
\<close>

theorem trimBranch_empty_log_counterexample:
  "trimBranch silentConnection [] ''a97e96'' True ''issue1'' ''main'' [] = (Inr [], [])"
  by (simp add: trimBranch_def retP_def)



section \<open>Properties of the pull request matcher\<close>

lemma prExists_iff: "prExists results pr \<longleftrightarrow> PR_Number pr \<in> PR_Number ` set results"
  by (induction results) auto

lemma prNumberExists_iff: "prNumberExists prNumbers n \<longleftrightarrow> n \<in> snd ` set prNumbers"
  by (induction prNumbers) auto

lemma findMatchedPullRequest_loop_step:
  "(findMatchedPullRequest_loop branchName (p # prs) prNumbers results
      = findMatchedPullRequest_loop branchName prs prNumbers results)
   \<or> (findMatchedPullRequest_loop branchName (p # prs) prNumbers results
        = findMatchedPullRequest_loop branchName prs prNumbers (results @ [p])
      \<and> PR_Number p \<notin> PR_Number ` set results
      \<and> matchesBranch prNumbers branchName p)"
  by (simp add: prNumberExists_iff prExists_iff matchesBranch_def)

lemma findMatchedPullRequest_loop_sound:
  "pr \<in> set (findMatchedPullRequest_loop branchName prs prNumbers results) \<Longrightarrow>
     pr \<in> set results \<or>
     (pr \<in> set prs \<and>
      matchesBranch prNumbers branchName pr)"
proof (induction prs arbitrary: results)
  case Nil
  then show ?case by simp
next
  case (Cons p prs)
  from findMatchedPullRequest_loop_step [of branchName p prs prNumbers results]
  show ?case
  proof (elim disjE conjE)
    assume "findMatchedPullRequest_loop branchName (p # prs) prNumbers results
      = findMatchedPullRequest_loop branchName prs prNumbers results"
    with Cons.prems have "pr \<in> set (findMatchedPullRequest_loop branchName prs prNumbers results)"
      by simp
    from Cons.IH [OF this] show ?thesis by auto
  next
    assume eq: "findMatchedPullRequest_loop branchName (p # prs) prNumbers results
        = findMatchedPullRequest_loop branchName prs prNumbers (results @ [p])"
      and ok: "matchesBranch prNumbers branchName p"
    from eq Cons.prems
    have "pr \<in> set (findMatchedPullRequest_loop branchName prs prNumbers (results @ [p]))"
      by simp
    from Cons.IH [OF this] have "pr \<in> set results \<or> pr = p \<or>
      (pr \<in> set prs \<and>
        matchesBranch prNumbers branchName pr)"
      by auto
    with ok show ?thesis by auto
  qed
qed

lemma findMatchedPullRequest_loop_distinct:
  "distinct (map PR_Number results) \<Longrightarrow>
     distinct (map PR_Number (findMatchedPullRequest_loop branchName prs prNumbers results))"
proof (induction prs arbitrary: results)
  case Nil
  then show ?case by simp
next
  case (Cons p prs)
  from findMatchedPullRequest_loop_step [of branchName p prs prNumbers results]
  show ?case
  proof (elim disjE conjE)
    assume "findMatchedPullRequest_loop branchName (p # prs) prNumbers results
      = findMatchedPullRequest_loop branchName prs prNumbers results"
    with Cons.IH [OF Cons.prems] show ?thesis by simp
  next
    assume eq: "findMatchedPullRequest_loop branchName (p # prs) prNumbers results
        = findMatchedPullRequest_loop branchName prs prNumbers (results @ [p])"
      and fresh: "PR_Number p \<notin> PR_Number ` set results"
    from fresh Cons.prems have "distinct (map PR_Number (results @ [p]))"
      by simp
    from Cons.IH [OF this] eq show ?thesis by simp
  qed
qed

lemma attachPullRequests_map:
  "attachPullRequests branches prs prNumbers =
     map (\<lambda>branch. branch\<lparr>PullRequests :=
            sort_key PR_Number (findMatchedPullRequest (Name branch) prs prNumbers)\<rparr>) branches"
  by (induction branches) auto

lemma update_values: "snd ` set (AList.update k v al) \<subseteq> insert v (snd ` set al)"
  by (induction al) auto

lemma collectPRNumbers_positive:
  "collectPRNumbers isDetached conn branches prNumbers h = (r, h') \<Longrightarrow>
     \<forall>n \<in> snd ` set prNumbers. 0 < n \<Longrightarrow>
     \<exists>collected. r = Inr collected \<and> (\<forall>n \<in> snd ` set collected. 0 < n)"
proof (induction branches arbitrary: prNumbers h)
  case Nil
  then show ?case by (auto simp: retP_def)
next
  case (Cons branch branches)
  show ?case
  proof (cases "isDetached branch")
    case True
    with Cons show ?thesis by simp
  next
    case False
    obtain mergeConfig err where
      resp: "conn h (Conn_GetConfig (''branch.'' @ Name branch @ ''.merge'')) = (mergeConfig, err)"
      by (cases "conn h (Conn_GetConfig (''branch.'' @ Name branch @ ''.merge''))")
    show ?thesis
    proof (cases "getPRNumber mergeConfig > 0")
      case True
      have pos: "\<forall>n \<in> snd ` set (AList.update (Name branch) (getPRNumber mergeConfig) prNumbers). 0 < n"
      proof
        fix n
        assume "n \<in> snd ` set (AList.update (Name branch) (getPRNumber mergeConfig) prNumbers)"
        with update_values [of "Name branch" "getPRNumber mergeConfig" prNumbers]
        have "n = getPRNumber mergeConfig \<or> n \<in> snd ` set prNumbers"
          by blast
        with True Cons.prems(2) show "0 < n" by blast
      qed
      from Cons.prems(1) False resp True
      have "collectPRNumbers isDetached conn branches
              (AList.update (Name branch) (getPRNumber mergeConfig) prNumbers)
              (h @ [Conn_GetConfig (''branch.'' @ Name branch @ ''.merge'')]) = (r, h')"
        by (simp add: bindP_def invoke_def)
      from Cons.IH [OF this pos] show ?thesis .
    next
      case nonpos: False
      from Cons.prems(1) False resp nonpos
      have "collectPRNumbers isDetached conn branches prNumbers
              (h @ [Conn_GetConfig (''branch.'' @ Name branch @ ''.merge'')]) = (r, h')"
        by (simp add: bindP_def invoke_def)
      from Cons.IH [OF this Cons.prems(2)] show ?thesis .
    qed
  qed
qed

lemma matched_sound:
  assumes pos: "\<forall>n \<in> snd ` set prNumbers. 0 < n"
    and "pr \<in> set (sort_key PR_Number (findMatchedPullRequest branchName prs prNumbers))"
  shows "pr \<in> set prs
       \<and> (PR_Number pr \<in> snd ` set prNumbers \<longrightarrow>
            map_of prNumbers branchName = Some (PR_Number pr))
       \<and> (PR_Number pr \<notin> snd ` set prNumbers \<longrightarrow> PR_Name pr = branchName)"
proof -
  from assms(2) have "pr \<in> set (findMatchedPullRequest_loop branchName prs prNumbers [])"
    by (simp add: findMatchedPullRequest_def)
  from findMatchedPullRequest_loop_sound [OF this]
  have mem: "pr \<in> set prs" and ok: "matchesBranch prNumbers branchName pr"
    by simp_all
  have "map_of prNumbers branchName = Some (PR_Number pr)"
    if claimed: "PR_Number pr \<in> snd ` set prNumbers"
  proof -
    from ok claimed have eq: "PR_Number pr = lookupNumber prNumbers branchName"
      by (simp add: matchesBranch_def)
    from pos claimed have "0 < PR_Number pr" by blast
    with eq show ?thesis
      by (cases "map_of prNumbers branchName") (simp_all add: lookupNumber_def)
  qed
  moreover have "PR_Name pr = branchName" if "PR_Number pr \<notin> snd ` set prNumbers"
    using ok that by (simp add: matchesBranch_def)
  ultimately show ?thesis using mem by blast
qed

lemma matched_distinct:
  "distinct (map PR_Number (sort_key PR_Number (findMatchedPullRequest branchName prs prNumbers)))"
proof -
  have "distinct (map PR_Number (findMatchedPullRequest branchName prs prNumbers))"
    unfolding findMatchedPullRequest_def
    by (rule findMatchedPullRequest_loop_distinct) simp
  then show ?thesis
    by (simp add: distinct_map)
qed

text \<open>
  C5, as the code has it. For branches with unique names: the list returned has one entry
  for each branch, in order; the numbers within the list of one branch are distinct; a pull
  request attached to a branch is one of those fetched; if its number is a value of the
  map of explicit numbers, the branch is one whose mapped number equals it (a coinciding
  head-ref name does not attach it to another branch), and if not, the branch carries its
  head-ref name. If moreover the map gives distinct numbers to distinct branches and the
  fetched pull requests have distinct numbers, no number is in the lists of two different
  branches.
\<close>

theorem applyPullRequest_matching:
  assumes names: "distinct (map Name branches)"
    and collected: "collectPRNumbers isDetached conn branches [] h = (Inr prNumbers, h')"
    and applied: "applyPullRequest isDetached conn branches prs h = (Inr matched, h'')"
  shows "length matched = length branches
    \<and> (\<forall>i < length branches.
          Name (matched ! i) = Name (branches ! i)
        \<and> distinct (map PR_Number (PullRequests (matched ! i)))
        \<and> (\<forall>pr \<in> set (PullRequests (matched ! i)).
              pr \<in> set prs
            \<and> (PR_Number pr \<in> snd ` set prNumbers \<longrightarrow>
                 map_of prNumbers (Name (branches ! i)) = Some (PR_Number pr))
            \<and> (PR_Number pr \<notin> snd ` set prNumbers \<longrightarrow>
                 PR_Name pr = Name (branches ! i))))
    \<and> (distinct (map snd prNumbers) \<and> distinct (map PR_Number prs) \<longrightarrow>
         (\<forall>i < length branches. \<forall>j < length branches. i \<noteq> j \<longrightarrow>
            PR_Number ` set (PullRequests (matched ! i))
              \<inter> PR_Number ` set (PullRequests (matched ! j)) = {}))"
proof -
  from applied collected
  have matched: "matched = attachPullRequests branches prs prNumbers"
    by (simp add: applyPullRequest_def bindP_def retP_def)
  have pos: "\<forall>n \<in> snd ` set prNumbers. 0 < n"
    using collectPRNumbers_positive [OF collected] by simp
  have len: "length matched = length branches"
    by (simp add: matched attachPullRequests_map)
  have nth: "matched ! i = (branches ! i)\<lparr>PullRequests :=
        sort_key PR_Number (findMatchedPullRequest (Name (branches ! i)) prs prNumbers)\<rparr>"
    if "i < length branches" for i
    using that by (simp add: matched attachPullRequests_map)
  have each: "Name (matched ! i) = Name (branches ! i)
        \<and> distinct (map PR_Number (PullRequests (matched ! i)))
        \<and> (\<forall>pr \<in> set (PullRequests (matched ! i)).
              pr \<in> set prs
            \<and> (PR_Number pr \<in> snd ` set prNumbers \<longrightarrow>
                 map_of prNumbers (Name (branches ! i)) = Some (PR_Number pr))
            \<and> (PR_Number pr \<notin> snd ` set prNumbers \<longrightarrow>
                 PR_Name pr = Name (branches ! i)))"
    if i: "i < length branches" for i
    using matched_sound [OF pos, of _ "Name (branches ! i)" prs]
    by (simp add: nth [OF i] matched_distinct)
  have disjoint: "PR_Number ` set (PullRequests (matched ! i))
              \<inter> PR_Number ` set (PullRequests (matched ! j)) = {}"
    if inj: "distinct (map snd prNumbers)" and prs: "distinct (map PR_Number prs)"
      and i: "i < length branches" and j: "j < length branches" and ij: "i \<noteq> j"
    for i j
  proof (rule ccontr)
    assume "PR_Number ` set (PullRequests (matched ! i))
              \<inter> PR_Number ` set (PullRequests (matched ! j)) \<noteq> {}"
    then obtain p q where p: "p \<in> set (PullRequests (matched ! i))"
      and q: "q \<in> set (PullRequests (matched ! j))"
      and same: "PR_Number p = PR_Number q"
      by auto
    from each [OF i] p have p_prs: "p \<in> set prs"
      and p_claimed: "PR_Number p \<in> snd ` set prNumbers \<Longrightarrow>
            map_of prNumbers (Name (branches ! i)) = Some (PR_Number p)"
      and p_named: "PR_Number p \<notin> snd ` set prNumbers \<Longrightarrow> PR_Name p = Name (branches ! i)"
      by blast+
    from each [OF j] q have q_prs: "q \<in> set prs"
      and q_claimed: "PR_Number q \<in> snd ` set prNumbers \<Longrightarrow>
            map_of prNumbers (Name (branches ! j)) = Some (PR_Number q)"
      and q_named: "PR_Number q \<notin> snd ` set prNumbers \<Longrightarrow> PR_Name q = Name (branches ! j)"
      by blast+
    from prs have "inj_on PR_Number (set prs)"
      by (simp add: distinct_map)
    with p_prs q_prs same have pq: "p = q"
      by (auto dest: inj_onD)
    from names i j ij have diff: "Name (branches ! i) \<noteq> Name (branches ! j)"
      by (simp add: distinct_conv_nth)
    show False
    proof (cases "PR_Number p \<in> snd ` set prNumbers")
      case True
      with p_claimed q_claimed pq
      have "(Name (branches ! i), PR_Number p) \<in> set prNumbers"
        and "(Name (branches ! j), PR_Number p) \<in> set prNumbers"
        by (auto dest: map_of_SomeD)
      moreover from inj have "inj_on snd (set prNumbers)"
        by (simp add: distinct_map)
      ultimately have "(Name (branches ! i), PR_Number p) = (Name (branches ! j), PR_Number p)"
        by (intro inj_onD [of snd "set prNumbers"]) simp_all
      then have "Name (branches ! i) = Name (branches ! j)"
        by simp
      with diff show False by contradiction
    next
      case False
      with p_named q_named pq diff show False by simp
    qed
  qed
  from len each disjoint show ?thesis by blast
qed

theorem applyPullRequest_matching_witness:
  "distinct (map Name [zeroBranch\<lparr>Name := ''a''\<rparr>, zeroBranch\<lparr>Name := ''b''\<rparr>])
   \<and> collectPRNumbers neverDetached trackingA
        [zeroBranch\<lparr>Name := ''a''\<rparr>, zeroBranch\<lparr>Name := ''b''\<rparr>] [] []
       = (Inr [(''a'', 5)], [Conn_GetConfig ''branch.a.merge'', Conn_GetConfig ''branch.b.merge''])
   \<and> applyPullRequest neverDetached trackingA
        [zeroBranch\<lparr>Name := ''a''\<rparr>, zeroBranch\<lparr>Name := ''b''\<rparr>]
        [examplePR 5 ''b'', examplePR 3 ''b''] []
       = (Inr [zeroBranch\<lparr>Name := ''a'', PullRequests := [examplePR 5 ''b'']\<rparr>,
               zeroBranch\<lparr>Name := ''b'', PullRequests := [examplePR 3 ''b'']\<rparr>],
          [Conn_GetConfig ''branch.a.merge'', Conn_GetConfig ''branch.b.merge''])
   \<and> PR_Number ` set [examplePR 5 ''b''] \<inter> PR_Number ` set [examplePR 3 ''b''] = {}"
proof -
  let ?branches = "[zeroBranch\<lparr>Name := ''a''\<rparr>, zeroBranch\<lparr>Name := ''b''\<rparr>]"
  let ?prs = "[examplePR 5 ''b'', examplePR 3 ''b'']"
  let ?matched = "[zeroBranch\<lparr>Name := ''a'', PullRequests := [examplePR 5 ''b'']\<rparr>,
               zeroBranch\<lparr>Name := ''b'', PullRequests := [examplePR 3 ''b'']\<rparr>]"
  let ?calls = "[Conn_GetConfig ''branch.a.merge'', Conn_GetConfig ''branch.b.merge'']"
  have names: "distinct (map Name ?branches)"
    by (simp add: zeroBranch_def)
  have collected: "collectPRNumbers neverDetached trackingA ?branches [] []
      = (Inr [(''a'', 5)], ?calls)"
    by (simp add: neverDetached_def trackingA_def bindP_def invoke_def retP_def
        getPRNumber_def hasPrefix_def isDigit_def zeroBranch_def)
  have attached: "attachPullRequests ?branches ?prs [(''a'', 5)] = ?matched"
    by (simp add: findMatchedPullRequest_def lookupNumber_def examplePR_def zeroBranch_def)
  have "applyPullRequest neverDetached trackingA ?branches ?prs []
      = (Inr (attachPullRequests ?branches ?prs [(''a'', 5)]), ?calls)"
    by (simp only: applyPullRequest_def bindP_def retP_def collected prod.case sum.case)
  with attached have applied: "applyPullRequest neverDetached trackingA ?branches ?prs []
      = (Inr ?matched, ?calls)"
    by simp
  have "distinct (map snd [(''a'', 5::int)]) \<and> distinct (map PR_Number ?prs)"
    by (simp add: examplePR_def)
  with applyPullRequest_matching [OF names collected applied]
  have "PR_Number ` set (PullRequests (?matched ! 0))
          \<inter> PR_Number ` set (PullRequests (?matched ! 1)) = {}"
    by (elim conjE impE) simp_all
  with names collected applied show ?thesis
    by simp
qed

text \<open>
  The claim C5 as it is worded fails when two branches track the same pull request: the
  names are unique, and pull request 5 is attached to both branches.
\<close>

theorem applyPullRequest_shared_counterexample:
  "applyPullRequest neverDetached trackingBoth
     [zeroBranch\<lparr>Name := ''a''\<rparr>, zeroBranch\<lparr>Name := ''b''\<rparr>] [examplePR 5 ''x''] []
   = (Inr [zeroBranch\<lparr>Name := ''a'', PullRequests := [examplePR 5 ''x'']\<rparr>,
           zeroBranch\<lparr>Name := ''b'', PullRequests := [examplePR 5 ''x'']\<rparr>],
      [Conn_GetConfig ''branch.a.merge'', Conn_GetConfig ''branch.b.merge''])"
  by (simp add: applyPullRequest_def neverDetached_def trackingBoth_def bindP_def invoke_def
      retP_def getPRNumber_def hasPrefix_def isDigit_def findMatchedPullRequest_def
      lookupNumber_def examplePR_def zeroBranch_def)

text \<open>
  Without explicit numbers, two fetched pull requests of the same number (one of the fork,
  one of its parent) are attached to the two branches that carry their names.
\<close>

lemma applyPullRequest_same_number_example:
  "applyPullRequest neverDetached silentConnection
     [zeroBranch\<lparr>Name := ''a''\<rparr>, zeroBranch\<lparr>Name := ''b''\<rparr>]
     [examplePR 5 ''a'', examplePR 5 ''b''] []
   = (Inr [zeroBranch\<lparr>Name := ''a'', PullRequests := [examplePR 5 ''a'']\<rparr>,
           zeroBranch\<lparr>Name := ''b'', PullRequests := [examplePR 5 ''b'']\<rparr>],
      [Conn_GetConfig ''branch.a.merge'', Conn_GetConfig ''branch.b.merge''])"
  by (simp add: applyPullRequest_def neverDetached_def silentConnection_def bindP_def invoke_def
      retP_def getPRNumber_def hasPrefix_def findMatchedPullRequest_def
      lookupNumber_def examplePR_def zeroBranch_def)

section \<open>Properties of the fail-safe switch\<close>

lemma needsCheckout_ex:
  "needsCheckout branches \<longleftrightarrow> (\<exists>b \<in> set branches. Head b \<and> State b = Deletable)"
  by (induction branches) auto

lemma branchNameExists_set:
  "branchNameExists branchName branches \<longleftrightarrow> branchName \<in> Name ` set branches"
  by (induction branches) auto

lemma relabelHead_map:
  "relabelHead branches defaultBranchName
     = map (\<lambda>b. b\<lparr>Head := (Name b = defaultBranchName)\<rparr>) branches"
  by (induction branches) auto

lemma named_once:
  "distinct (map Name branches) \<Longrightarrow>
     length (filter (\<lambda>b. Name b = name) branches)
       = (if name \<in> Name ` set branches then 1 else 0)"
proof (induction branches)
  case Nil
  then show ?case by simp
next
  case (Cons b branches)
  then show ?case by (cases "Name b = name") (auto simp: filter_empty_conv)
qed

text \<open>
  C6. When the switch triggers (a branch with \<open>Head\<close> set is \<open>Deletable\<close>) and the
  checkout succeeds or the run is a dry run, the entries of the list returned with \<open>Head\<close>
  set are those named as the default branch, and there is at least one; for a list of
  branches with unique names (the invariant of the data model) there is exactly one. If no
  branch of the list carries that name, an entry for it (\<open>Head\<close> set, \<open>NotDeletable\<close>,
  every other field zero) is put first. A dry run makes no call and returns the same list
  as a run that checks out.
\<close>

theorem switchToDefaultBranchIfDeleted_relabels:
  assumes trigger: "\<exists>b \<in> set branches. Head b \<and> State b = Deletable"
    and checkout: "dryRun \<or> snd (conn h (Conn_CheckoutBranch defaultBranchName)) = None"
  shows "\<exists>switched.
      switchToDefaultBranchIfDeleted conn branches defaultBranchName dryRun h
        = (Inr switched, if dryRun then h else h @ [Conn_CheckoutBranch defaultBranchName])
    \<and> switchToDefaultBranchIfDeleted conn branches defaultBranchName True h = (Inr switched, h)
    \<and> switched
        = (if defaultBranchName \<in> Name ` set branches then []
           else [zeroBranch\<lparr>Head := True, Name := defaultBranchName, State := NotDeletable\<rparr>])
          @ map (\<lambda>b. b\<lparr>Head := (Name b = defaultBranchName)\<rparr>) branches
    \<and> (\<forall>b \<in> set switched. Head b \<longleftrightarrow> Name b = defaultBranchName)
    \<and> 1 \<le> length (filter Head switched)
    \<and> (distinct (map Name branches) \<longrightarrow> length (filter Head switched) = 1)"
proof -
  let ?relabelled = "map (\<lambda>b. b\<lparr>Head := (Name b = defaultBranchName)\<rparr>) branches"
  let ?switched = "(if defaultBranchName \<in> Name ` set branches then []
           else [zeroBranch\<lparr>Head := True, Name := defaultBranchName, State := NotDeletable\<rparr>])
          @ ?relabelled"
  from trigger have needs: "needsCheckout branches"
    by (simp add: needsCheckout_ex)
  have dry: "switchToDefaultBranchIfDeleted conn branches defaultBranchName True h
      = (Inr ?switched, h)"
    using needs
    by (simp add: switchToDefaultBranchIfDeleted_def bindP_def retP_def
        branchNameExists_set relabelHead_map)
  have run: "switchToDefaultBranchIfDeleted conn branches defaultBranchName dryRun h
      = (Inr ?switched, if dryRun then h else h @ [Conn_CheckoutBranch defaultBranchName])"
  proof (cases dryRun)
    case True
    with dry show ?thesis by simp
  next
    case False
    with checkout obtain out where
      "conn h (Conn_CheckoutBranch defaultBranchName) = (out, None)"
      by (cases "conn h (Conn_CheckoutBranch defaultBranchName)") auto
    with False needs show ?thesis
      by (simp add: switchToDefaultBranchIfDeleted_def bindP_def retP_def checked_def
          branchNameExists_set relabelHead_map)
  qed
  have "filter Head ?relabelled
      = map (\<lambda>b. b\<lparr>Head := (Name b = defaultBranchName)\<rparr>)
          (filter (\<lambda>b. Name b = defaultBranchName) branches)"
    by (simp add: filter_map comp_def)
  then have count: "length (filter Head ?relabelled)
      = length (filter (\<lambda>b. Name b = defaultBranchName) branches)"
    by simp
  have heads: "\<forall>b \<in> set ?switched. Head b \<longleftrightarrow> Name b = defaultBranchName"
    by auto
  have some: "1 \<le> length (filter Head ?switched)"
  proof (cases "defaultBranchName \<in> Name ` set branches")
    case True
    then have "filter (\<lambda>b. Name b = defaultBranchName) branches \<noteq> []"
      by (auto simp: filter_empty_conv)
    then have "1 \<le> length (filter (\<lambda>b. Name b = defaultBranchName) branches)"
      by (cases "filter (\<lambda>b. Name b = defaultBranchName) branches") simp_all
    with True count show ?thesis by simp
  next
    case False
    then show ?thesis by simp
  qed
  have one: "length (filter Head ?switched) = 1" if names: "distinct (map Name branches)"
    using named_once [OF names, of defaultBranchName] count by simp
  from run dry heads some one show ?thesis
    by blast
qed

theorem switchToDefaultBranchIfDeleted_relabels_witness:
  "switchToDefaultBranchIfDeleted silentConnection
     [zeroBranch\<lparr>Head := True, Name := ''issue1'', State := Deletable\<rparr>] ''main'' False []
     = (Inr [zeroBranch\<lparr>Head := True, Name := ''main'', State := NotDeletable\<rparr>,
             zeroBranch\<lparr>Head := False, Name := ''issue1'', State := Deletable\<rparr>],
        [Conn_CheckoutBranch ''main''])
   \<and> switchToDefaultBranchIfDeleted silentConnection
     [zeroBranch\<lparr>Head := True, Name := ''issue1'', State := Deletable\<rparr>] ''main'' True []
     = (Inr [zeroBranch\<lparr>Head := True, Name := ''main'', State := NotDeletable\<rparr>,
             zeroBranch\<lparr>Head := False, Name := ''issue1'', State := Deletable\<rparr>],
        [])
   \<and> distinct (map Name [zeroBranch\<lparr>Head := True, Name := ''issue1'', State := Deletable\<rparr>])
   \<and> length (filter Head
         [zeroBranch\<lparr>Head := True, Name := ''main'', State := NotDeletable\<rparr>,
          zeroBranch\<lparr>Head := False, Name := ''issue1'', State := Deletable\<rparr>]) = 1"
proof -
  let ?branches = "[zeroBranch\<lparr>Head := True, Name := ''issue1'', State := Deletable\<rparr>]"
  have trigger: "\<exists>b \<in> set ?branches. Head b \<and> State b = Deletable"
    by (simp add: zeroBranch_def)
  have names: "distinct (map Name ?branches)"
    by simp
  have checkout: "False \<or> snd (silentConnection [] (Conn_CheckoutBranch ''main'')) = None"
    by (simp add: silentConnection_def)
  from switchToDefaultBranchIfDeleted_relabels
    [where conn = silentConnection and h = "[]" and dryRun = False
       and defaultBranchName = "''main''", OF trigger checkout]
  obtain switched where
    run: "switchToDefaultBranchIfDeleted silentConnection ?branches ''main'' False []
        = (Inr switched, [Conn_CheckoutBranch ''main''])"
    and dry: "switchToDefaultBranchIfDeleted silentConnection ?branches ''main'' True []
        = (Inr switched, [])"
    and switched: "switched
        = [zeroBranch\<lparr>Head := True, Name := ''main'', State := NotDeletable\<rparr>,
           zeroBranch\<lparr>Head := False, Name := ''issue1'', State := Deletable\<rparr>]"
    and one: "distinct (map Name ?branches) \<longrightarrow> length (filter Head switched) = 1"
    by (auto simp: zeroBranch_def)
  from one names have "length (filter Head switched) = 1"
    by blast
  with run dry switched names show ?thesis
    by simp
qed

section \<open>Properties of the deletion executor\<close>

lemma toBranch_panics: "toBranch ls = Inl f \<Longrightarrow> f = Panicked"
  by (induction ls arbitrary: f) (auto split: list.splits sum.splits)






text \<open>
  C10. \<^verbatim>\<open>DeleteBranches\<close> returns an error only when some branch is \<open>Deletable\<close> and
  reading the branch names again fails, and then it is that error; what the delete call
  itself returned (output and error) does not enter the result: two connections that
  answer the second call alike give the same result.
\<close>

theorem DeleteBranches_errors:
  "(DeleteBranches conn branches h = (Inl (Returned e), h') \<longrightarrow>
      getBranchNames branches Deletable \<noteq> []
      \<and> snd (conn (h @ [Conn_DeleteBranches (getBranchNames branches Deletable)])
               Conn_GetBranchNames) = Some e)
   \<and> (conn' (h @ [Conn_DeleteBranches (getBranchNames branches Deletable)]) Conn_GetBranchNames
        = conn (h @ [Conn_DeleteBranches (getBranchNames branches Deletable)]) Conn_GetBranchNames
      \<longrightarrow> DeleteBranches conn' branches h = DeleteBranches conn branches h)"
proof (rule conjI; rule impI)
  assume err: "DeleteBranches conn branches h = (Inl (Returned e), h')"
  show "getBranchNames branches Deletable \<noteq> []
      \<and> snd (conn (h @ [Conn_DeleteBranches (getBranchNames branches Deletable)])
               Conn_GetBranchNames) = Some e"
  proof (cases "getBranchNames branches Deletable = []")
    case True
    with err show ?thesis
      by (simp add: DeleteBranches_def retP_def)
  next
    case False
    obtain out status where resp:
      "conn (h @ [Conn_DeleteBranches (getBranchNames branches Deletable)]) Conn_GetBranchNames
         = (out, status)"
      by (cases "conn (h @ [Conn_DeleteBranches (getBranchNames branches Deletable)])
                   Conn_GetBranchNames")
    from err False resp show ?thesis
      by (cases status; cases "toBranch (splitLines out)")
        (auto simp: DeleteBranches_def bindP_def invoke_def checked_def liftP_def retP_def
           dest: toBranch_panics)
  qed
next
  assume "conn' (h @ [Conn_DeleteBranches (getBranchNames branches Deletable)]) Conn_GetBranchNames
        = conn (h @ [Conn_DeleteBranches (getBranchNames branches Deletable)]) Conn_GetBranchNames"
  then show "DeleteBranches conn' branches h = DeleteBranches conn branches h"
    by (simp add: DeleteBranches_def bindP_def invoke_def checked_def)
qed

theorem DeleteBranches_errors_witness:
  "DeleteBranches failingConnection [zeroBranch\<lparr>Name := ''issue1'', State := Deletable\<rparr>] []
     = (Inl (Returned (ErrCommand ''failed to run external command'')),
        [Conn_DeleteBranches [''issue1''], Conn_GetBranchNames])
   \<and> snd (failingConnection [Conn_DeleteBranches [''issue1'']] Conn_GetBranchNames)
     = Some (ErrCommand ''failed to run external command'')
   \<and> snd (deleteRefused [] (Conn_DeleteBranches [''issue1'']))
     = Some (ErrCommand ''failed to run external command'')
   \<and> DeleteBranches deleteRefused [zeroBranch\<lparr>Name := ''issue1'', State := Deletable\<rparr>] []
     = DeleteBranches deleteSilent [zeroBranch\<lparr>Name := ''issue1'', State := Deletable\<rparr>] []"
proof -
  let ?branches = "[zeroBranch\<lparr>Name := ''issue1'', State := Deletable\<rparr>]"
  let ?e = "ErrCommand ''failed to run external command''"
  have failed: "DeleteBranches failingConnection ?branches []
     = (Inl (Returned ?e), [Conn_DeleteBranches [''issue1''], Conn_GetBranchNames])"
    by (simp add: DeleteBranches_def failingConnection_def bindP_def invoke_def checked_def)
  from DeleteBranches_errors
      [of failingConnection ?branches "[]" ?e
        "[Conn_DeleteBranches [''issue1''], Conn_GetBranchNames]"] failed
  have reread: "snd (failingConnection [Conn_DeleteBranches [''issue1'']] Conn_GetBranchNames)
     = Some ?e"
    by simp
  have alike: "deleteRefused ([] @ [Conn_DeleteBranches (getBranchNames ?branches Deletable)])
        Conn_GetBranchNames
      = deleteSilent ([] @ [Conn_DeleteBranches (getBranchNames ?branches Deletable)])
        Conn_GetBranchNames"
    by (simp add: deleteRefused_def deleteSilent_def)
  from DeleteBranches_errors [of deleteSilent ?branches "[]" _ _ deleteRefused] alike
  have same: "DeleteBranches deleteRefused ?branches [] = DeleteBranches deleteSilent ?branches []"
    by blast
  have "snd (deleteRefused [] (Conn_DeleteBranches [''issue1''])) = Some ?e"
    by (simp add: deleteRefused_def)
  with failed reread same show ?thesis
    by simp
qed

section \<open>Properties of the query batching\<close>

lemma getQueryHashes_loop_pack:
  "getQueryHashes_loop n i branches results hashes
     = results @ packBlocks hashes (queryFilters n i branches)"
  by (induction branches arbitrary: i results hashes) auto

lemma packBlocks_concat: "concat (packBlocks current filters) = current @ concat filters"
  by (induction filters arbitrary: current) auto

lemma packBlocks_bound:
  assumes "\<forall>f \<in> set filters. length f \<le> 256" and "length current \<le> 256"
    and "block \<in> set (packBlocks current filters)"
  shows "0 < length block \<and> length block \<le> 256"
  using assms
proof (induction filters arbitrary: current)
  case Nil
  then show ?case by (auto split: if_splits)
next
  case (Cons f filters)
  show ?case
  proof (cases "length current + length f > 256")
    case True
    with Cons.prems(3) have "block = current \<or> block \<in> set (packBlocks f filters)"
      by simp
    then show ?thesis
    proof
      assume "block = current"
      with True Cons.prems(1,2) show ?thesis by auto
    next
      assume "block \<in> set (packBlocks f filters)"
      with Cons.IH [of f] Cons.prems(1) show ?thesis by simp
    qed
  next
    case False
    with Cons.prems(3) have "block \<in> set (packBlocks (current @ f) filters)"
      by simp
    with Cons.IH [of "current @ f"] Cons.prems(1) False show ?thesis by simp
  qed
qed

lemma queryFilters_length:
  "length (queryFilters n i branches)
     = length (filter (\<lambda>b. RemoteHeadOid b \<noteq> [] \<or> Commits b \<noteq> []) branches)"
  by (induction branches arbitrary: i) auto

text \<open>
  C9. \<^verbatim>\<open>getQueryHashes\<close> packs the filters of the branch list as the specification
  says: a new block starts whenever appending the next filter, with its separator, would
  push the length of the current block past 256. The blocks, concatenated, are the
  filters, concatenated; there is one filter for each branch that has a remote head oid or
  a commit, and none for the others. If each filter, with its separator, is at most 256
  characters long, every block is between 1 and 256 characters long.
\<close>

theorem getQueryHashes_blocks:
  "getQueryHashes branches = packBlocks [] (queryFilters (length branches) 0 branches)
   \<and> concat (getQueryHashes branches) = concat (queryFilters (length branches) 0 branches)
   \<and> length (queryFilters (length branches) 0 branches)
       = length (filter (\<lambda>b. RemoteHeadOid b \<noteq> [] \<or> Commits b \<noteq> []) branches)
   \<and> ((\<forall>f \<in> set (queryFilters (length branches) 0 branches). length f \<le> 256) \<longrightarrow>
        (\<forall>block \<in> set (getQueryHashes branches). 0 < length block \<and> length block \<le> 256))"
proof -
  have eq: "getQueryHashes branches = packBlocks [] (queryFilters (length branches) 0 branches)"
    by (simp add: getQueryHashes_def getQueryHashes_loop_pack)
  have bound: "\<forall>block \<in> set (getQueryHashes branches). 0 < length block \<and> length block \<le> 256"
    if "\<forall>f \<in> set (queryFilters (length branches) 0 branches). length f \<le> 256"
    using packBlocks_bound [OF that, of "[]"] by (simp add: eq)
  from eq bound show ?thesis
    by (simp add: packBlocks_concat queryFilters_length)
qed

theorem getQueryHashes_blocks_witness:
  "getQueryHashes
     [zeroBranch\<lparr>Name := ''issue1'', RemoteHeadOid := replicate 125 CHR ''a''\<rparr>,
      zeroBranch\<lparr>Name := ''main''\<rparr>,
      zeroBranch\<lparr>Name := ''issue2'', Commits := [''b8a2ee'', replicate 125 CHR ''b'']\<rparr>]
   = [''hash:'' @ replicate 125 CHR ''a'' @ '' '', ''hash:'' @ replicate 125 CHR ''b'']
   \<and> length (''hash:'' @ replicate 125 CHR ''a'' @ '' '') \<le> 256
   \<and> length (''hash:'' @ replicate 125 CHR ''b'') \<le> 256"
  using getQueryHashes_blocks
    [of "[zeroBranch\<lparr>Name := ''issue1'', RemoteHeadOid := replicate 125 CHR ''a''\<rparr>,
      zeroBranch\<lparr>Name := ''main''\<rparr>,
      zeroBranch\<lparr>Name := ''issue2'', Commits := [''b8a2ee'', replicate 125 CHR ''b'']\<rparr>]"]
  by (simp add: queryHash_def zeroBranch_def)

section \<open>A failed checkout aborts the classification\<close>

lemma fatal_retP: "checkoutFailureIsFatal conn (retP x)"
  by (simp add: checkoutFailureIsFatal_def retP_def)

lemma fatal_failP: "checkoutFailureIsFatal conn (failP f)"
  by (simp add: checkoutFailureIsFatal_def failP_def)

lemma fatal_liftP: "checkoutFailureIsFatal conn (liftP r)"
  by (simp add: checkoutFailureIsFatal_def liftP_def)

lemma fatal_invoke:
  assumes "\<And>name. c \<noteq> Conn_CheckoutBranch name"
  shows "checkoutFailureIsFatal conn (invoke conn c)"
  using assms by (simp add: checkoutFailureIsFatal_def invoke_def)

lemma fatal_checked: "checkoutFailureIsFatal conn (checked conn c)"
  unfolding checkoutFailureIsFatal_def
proof
  fix h
  show "\<exists>calls. snd (checked conn c h) = h @ calls
        \<and> (\<forall>k name e. k < length calls \<and> calls ! k = Conn_CheckoutBranch name
              \<and> snd (conn (h @ take k calls) (calls ! k)) = Some e
            \<longrightarrow> fst (checked conn c h) = Inl (Returned e))"
    by (rule exI [of _ "[c]"]) (auto simp: checked_def split: prod.splits option.splits)
qed

lemma fatal_bindP:
  assumes m: "checkoutFailureIsFatal conn m"
    and f: "\<And>x. checkoutFailureIsFatal conn (f x)"
  shows "checkoutFailureIsFatal conn (bindP m f)"
  unfolding checkoutFailureIsFatal_def
proof
  fix h
  from m obtain calls1 where
    trace1: "snd (m h) = h @ calls1"
    and fatal1: "\<And>k name e. k < length calls1 \<Longrightarrow> calls1 ! k = Conn_CheckoutBranch name \<Longrightarrow>
        snd (conn (h @ take k calls1) (calls1 ! k)) = Some e \<Longrightarrow> fst (m h) = Inl (Returned e)"
    unfolding checkoutFailureIsFatal_def by blast
  show "\<exists>calls. snd (bindP m f h) = h @ calls
        \<and> (\<forall>k name e. k < length calls \<and> calls ! k = Conn_CheckoutBranch name
              \<and> snd (conn (h @ take k calls) (calls ! k)) = Some e
            \<longrightarrow> fst (bindP m f h) = Inl (Returned e))"
  proof (cases "fst (m h)")
    case (Inl failure)
    with trace1 have run: "bindP m f h = (Inl failure, h @ calls1)"
      by (cases "m h") (simp add: bindP_def)
    show ?thesis
    proof (intro exI [of _ calls1] conjI allI impI)
      show "snd (bindP m f h) = h @ calls1"
        by (simp add: run)
    next
      fix k name e
      assume "k < length calls1 \<and> calls1 ! k = Conn_CheckoutBranch name
              \<and> snd (conn (h @ take k calls1) (calls1 ! k)) = Some e"
      then have "fst (m h) = Inl (Returned e)"
        using fatal1 by blast
      with Inl show "fst (bindP m f h) = Inl (Returned e)"
        by (simp add: run)
    qed
  next
    case (Inr x)
    with trace1 have run: "bindP m f h = f x (h @ calls1)"
      by (cases "m h") (simp add: bindP_def)
    from f [of x] obtain calls2 where
      trace2: "snd (f x (h @ calls1)) = (h @ calls1) @ calls2"
      and fatal2: "\<And>k name e. k < length calls2 \<Longrightarrow> calls2 ! k = Conn_CheckoutBranch name \<Longrightarrow>
          snd (conn ((h @ calls1) @ take k calls2) (calls2 ! k)) = Some e \<Longrightarrow>
          fst (f x (h @ calls1)) = Inl (Returned e)"
      unfolding checkoutFailureIsFatal_def by blast
    show ?thesis
    proof (intro exI [of _ "calls1 @ calls2"] conjI allI impI)
      show "snd (bindP m f h) = h @ calls1 @ calls2"
        by (simp add: run trace2)
    next
      fix k name e
      assume a: "k < length (calls1 @ calls2) \<and> (calls1 @ calls2) ! k = Conn_CheckoutBranch name
              \<and> snd (conn (h @ take k (calls1 @ calls2)) ((calls1 @ calls2) ! k)) = Some e"
      then have at: "(calls1 @ calls2) ! k = Conn_CheckoutBranch name"
        and err: "snd (conn (h @ take k (calls1 @ calls2)) ((calls1 @ calls2) ! k)) = Some e"
        and lt: "k < length (calls1 @ calls2)"
        by blast+
      show "fst (bindP m f h) = Inl (Returned e)"
      proof (cases "k < length calls1")
        case True
        from at True have "calls1 ! k = Conn_CheckoutBranch name"
          by (simp add: nth_append)
        moreover from err True have "snd (conn (h @ take k calls1) (calls1 ! k)) = Some e"
          by (simp add: nth_append)
        ultimately have "fst (m h) = Inl (Returned e)"
          using True by (rule fatal1 [rotated])
        with Inr show ?thesis by simp
      next
        case False
        from at False have "calls2 ! (k - length calls1) = Conn_CheckoutBranch name"
          by (simp add: nth_append)
        moreover from err False
        have "snd (conn ((h @ calls1) @ take (k - length calls1) calls2)
                (calls2 ! (k - length calls1))) = Some e"
          by (simp add: nth_append)
        moreover from lt False have "k - length calls1 < length calls2"
          by simp
        ultimately have "fst (f x (h @ calls1)) = Inl (Returned e)"
          by (rule fatal2 [rotated])
        then show ?thesis by (simp add: run)
      qed
    qed
  qed
qed

lemmas fatal_intros = fatal_retP fatal_failP fatal_liftP fatal_checked fatal_bindP

lemma fatal_trimBranch_loop:
  "checkoutFailureIsFatal conn
     (trimBranch_loop conn remoteHeadOid isMerged branchName defaultBranchName i oids
        results childNames)"
  by (induction oids arbitrary: i results childNames)
    (auto intro!: fatal_intros simp: Let_def split: option.splits)

lemma fatal_trimBranch:
  "checkoutFailureIsFatal conn
     (trimBranch conn oids remoteHeadOid isMerged branchName defaultBranchName)"
  by (simp add: trimBranch_def fatal_trimBranch_loop)

lemma fatal_collectPRNumbers:
  "checkoutFailureIsFatal conn (collectPRNumbers isDetached conn branches prNumbers)"
  by (induction branches arbitrary: prNumbers)
    (auto intro!: fatal_intros fatal_invoke split: prod.splits)

lemma fatal_applyPullRequest:
  "checkoutFailureIsFatal conn (applyPullRequest isDetached conn branches prs)"
  by (auto simp: applyPullRequest_def intro!: fatal_intros fatal_collectPRNumbers)

lemma fatal_applyProtected:
  "checkoutFailureIsFatal conn (applyProtected conn branches)"
  by (induction branches) (auto intro!: fatal_intros fatal_invoke split: prod.splits)

lemma fatal_readRemoteHeadOid:
  "checkoutFailureIsFatal conn (readRemoteHeadOid ext conn remote branch)"
  by (auto simp: readRemoteHeadOid_def intro!: fatal_intros fatal_invoke
      split: prod.splits option.splits list.splits)

lemma fatal_applyCommits:
  "checkoutFailureIsFatal conn (applyCommits ext conn remote branches defaultBranchName)"
  by (induction branches)
    (auto intro!: fatal_intros fatal_readRemoteHeadOid fatal_trimBranch)

lemma fatal_fetchPullRequests:
  "checkoutFailureIsFatal conn (fetchPullRequests ext conn hostname orgs repos blocks prs)"
  by (induction blocks arbitrary: prs) (auto intro!: fatal_intros split: sum.splits)

lemma fatal_loadBranches:
  "checkoutFailureIsFatal conn (loadBranches ext conn remote defaultBranchName repoNames)"
  unfolding loadBranches_def
  by (intro fatal_intros fatal_applyProtected fatal_applyCommits fatal_fetchPullRequests
      fatal_applyPullRequest)

lemma fatal_switchToDefaultBranchIfDeleted:
  "checkoutFailureIsFatal conn
     (switchToDefaultBranchIfDeleted conn branches defaultBranchName dryRun)"
  by (auto simp: switchToDefaultBranchIfDeleted_def intro!: fatal_intros)

lemma fatal_GetBranches:
  "checkoutFailureIsFatal conn (GetBranches ext conn remote dryRun)"
  unfolding GetBranches_def
  by (auto intro!: fatal_intros fatal_loadBranches fatal_switchToDefaultBranchIfDeleted
      split: sum.splits prod.splits)

text \<open>
  C7. When the fail-safe switch has to check out the default branch (a branch with
  \<open>Head\<close> set is \<open>Deletable\<close>, and the run is not a dry run) and the checkout fails,
  the switch returns that error; and in every run of \<^verbatim>\<open>GetBranches\<close>, a call of
  \<^verbatim>\<open>CheckoutBranch\<close> made during the run that fails makes \<^verbatim>\<open>GetBranches\<close> return
  that error, and so no branch list.
\<close>

theorem GetBranches_checkout_failure:
  "((\<exists>b \<in> set branches. Head b \<and> State b = Deletable) \<and> \<not> dryRun
      \<and> snd (conn h (Conn_CheckoutBranch defaultBranchName)) = Some e \<longrightarrow>
        switchToDefaultBranchIfDeleted conn branches defaultBranchName dryRun h
          = (Inl (Returned e), h @ [Conn_CheckoutBranch defaultBranchName]))
   \<and> (GetBranches ext conn remote dryRun h = (result, h')
      \<and> length h \<le> k \<and> k < length h' \<and> h' ! k = Conn_CheckoutBranch name
      \<and> snd (conn (take k h') (h' ! k)) = Some e \<longrightarrow>
        result = Inl (Returned e))"
proof (rule conjI; rule impI)
  assume a: "(\<exists>b \<in> set branches. Head b \<and> State b = Deletable) \<and> \<not> dryRun
      \<and> snd (conn h (Conn_CheckoutBranch defaultBranchName)) = Some e"
  then have "needsCheckout branches"
    by (simp add: needsCheckout_ex)
  moreover from a obtain out where
    "conn h (Conn_CheckoutBranch defaultBranchName) = (out, Some e)"
    by (cases "conn h (Conn_CheckoutBranch defaultBranchName)") auto
  ultimately show "switchToDefaultBranchIfDeleted conn branches defaultBranchName dryRun h
          = (Inl (Returned e), h @ [Conn_CheckoutBranch defaultBranchName])"
    using a by (simp add: switchToDefaultBranchIfDeleted_def bindP_def checked_def)
next
  assume a: "GetBranches ext conn remote dryRun h = (result, h')
      \<and> length h \<le> k \<and> k < length h' \<and> h' ! k = Conn_CheckoutBranch name
      \<and> snd (conn (take k h') (h' ! k)) = Some e"
  then have run: "GetBranches ext conn remote dryRun h = (result, h')"
    and ge: "length h \<le> k" and lt: "k < length h'"
    and at: "h' ! k = Conn_CheckoutBranch name"
    and err: "snd (conn (take k h') (h' ! k)) = Some e"
    by blast+
  from fatal_GetBranches [of conn ext remote dryRun] obtain calls where
    trace: "snd (GetBranches ext conn remote dryRun h) = h @ calls"
    and fatal: "\<And>j name e. j < length calls \<Longrightarrow> calls ! j = Conn_CheckoutBranch name \<Longrightarrow>
        snd (conn (h @ take j calls) (calls ! j)) = Some e \<Longrightarrow>
        fst (GetBranches ext conn remote dryRun h) = Inl (Returned e)"
    unfolding checkoutFailureIsFatal_def by blast
  from trace run have h': "h' = h @ calls"
    by simp
  from at ge have "calls ! (k - length h) = Conn_CheckoutBranch name"
    by (simp add: h' nth_append)
  moreover from err ge have "snd (conn (h @ take (k - length h) calls)
      (calls ! (k - length h))) = Some e"
    by (simp add: h' nth_append)
  moreover from lt ge have "k - length h < length calls"
    by (simp add: h')
  ultimately have "fst (GetBranches ext conn remote dryRun h) = Inl (Returned e)"
    by (rule fatal [rotated])
  with run show "result = Inl (Returned e)"
    by simp
qed

theorem GetBranches_checkout_failure_witness:
  "snd (GetBranches exampleExternals checkoutFails exampleRemote False []) ! 12
     = Conn_CheckoutBranch ''main''
   \<and> snd (checkoutFails
       (take 12 (snd (GetBranches exampleExternals checkoutFails exampleRemote False [])))
       (Conn_CheckoutBranch ''main'')) = Some (ErrCommand ''failed to run external command'')
   \<and> fst (GetBranches exampleExternals checkoutFails exampleRemote False [])
     = Inl (Returned (ErrCommand ''failed to run external command''))"
proof -
  let ?calls = "[Conn_GetRepoNames ''github.com'' ''owner/repo'',
     Conn_CheckRepos ''github.com'' [''owner/repo''], Conn_GetBranchNames,
     Conn_GetMergedBranchNames ''origin'' ''main'',
     Conn_GetConfig ''branch.issue1.gh-poi-protected'',
     Conn_GetConfig ''branch.main.gh-poi-protected'',
     Conn_GetRemoteHeadOid ''origin'' ''issue1'', Conn_GetLog ''issue1'',
     Conn_GetPullRequests ''github.com'' ''org:owner '' ''repo:owner/repo '' ''hash:a97e96 '',
     Conn_GetConfig ''branch.issue1.merge'', Conn_GetConfig ''branch.main.merge'',
     Conn_GetUncommittedChanges, Conn_CheckoutBranch ''main'']"
  have trace: "snd (GetBranches exampleExternals checkoutFails exampleRemote False []) = ?calls"
    by (simp add: GetBranches_def loadBranches_def exampleExternals_def checkoutFails_def
        exampleRemote_def bindP_def checked_def invoke_def retP_def failP_def liftP_def
        getRepo_def splitLines_def zeroBranch_def mergedName_def readRemoteHeadOid_def
        trimBranch_def getQueryOrgs_def getQueryRepos_def getQueryHashes_def queryHash_def
        toPullRequests_def toPullRequestState_def applyPullRequest_def getPRNumber_def
        hasPrefix_def findMatchedPullRequest_def lookupNumber_def getDeleteStatus_def
        isFullyMerged_def switchToDefaultBranchIfDeleted_def)
  have at: "?calls ! 12 = Conn_CheckoutBranch ''main''"
    by simp
  have failed: "snd (checkoutFails (take 12 ?calls) (?calls ! 12))
      = Some (ErrCommand ''failed to run external command'')"
    by (simp add: checkoutFails_def)
  obtain result where run: "GetBranches exampleExternals checkoutFails exampleRemote False []
      = (result, ?calls)"
    using trace by (cases "GetBranches exampleExternals checkoutFails exampleRemote False []") simp
  from GetBranches_checkout_failure
      [where ext = exampleExternals and conn = checkoutFails and remote = exampleRemote
         and dryRun = False and h = "[]" and result = result and h' = ?calls and k = 12
         and name = "''main''" and e = "ErrCommand ''failed to run external command''"]
    run at failed
  have "result = Inl (Returned (ErrCommand ''failed to run external command''))"
    by simp
  with run at failed show ?thesis
    by simp
qed

end
